theory Spec2Isabelle
  imports Complex_Main
begin

section \<open>JSON values and JavaScript strings\<close>

text \<open>
  The program (\<^verbatim>\<open>src/index.ts\<close>) receives parsed JSON from \<^verbatim>\<open>res.json()\<close>. A JavaScript
  number is carried around but never computed with, so it is a \<^typ>\<open>rat\<close> here. A JavaScript
  string is a sequence of UTF-16 code units; one element of a \<^typ>\<open>string\<close> stands for one
  code unit, which is what \<^verbatim>\<open>.length\<close> and \<^verbatim>\<open>.slice\<close> count. An object is the list of its own
  properties, read with \<^const>\<open>map_of\<close>; a property that is not there reads as \<^verbatim>\<open>undefined\<close>,
  which is \<^const>\<open>None\<close> of the type \<open>mixed\<close>.
\<close>

datatype json =
    JNull
  | JBool bool
  | JNum rat
  | JStr string
  | JArr "json list"
  | JObj "(string \<times> json) list"

type_synonym mixed = "json option"

text \<open>\<^verbatim>\<open>String(n)\<close> and \<^verbatim>\<open>`${n}`\<close> for a non-negative integer \<open>n\<close>: its decimal digits.\<close>

definition digit_char :: "nat \<Rightarrow> char" where
  "digit_char n = ''0123456789'' ! n"

fun string_of_nat :: "nat \<Rightarrow> string" where
  "string_of_nat n =
     (if n < 10 then [digit_char n]
      else string_of_nat (n div 10) @ [digit_char (n mod 10)])"

declare string_of_nat.simps [simp del]

text \<open>\<^verbatim>\<open>xs.join(sep)\<close> on an array of strings.\<close>

fun join :: "string \<Rightarrow> string list \<Rightarrow> string" where
  "join sep [] = []"
| "join sep [x] = x"
| "join sep (x # y # ys) = x @ sep @ join sep (y # ys)"

text \<open>
  \<^verbatim>\<open>xs.slice(start, end)\<close> as ECMAScript defines it for integer arguments: a negative
  argument counts from the end of the array, and both ends are clamped to the array.
\<close>

definition slice :: "'a list \<Rightarrow> int \<Rightarrow> int \<Rightarrow> 'a list" where
  "slice xs start end' =
     (let len = int (length xs);
          k = (if start < 0 then max (len + start) 0 else min start len);
          final = (if end' < 0 then max (len + end') 0 else min end' len)
      in take (nat (max (final - k) 0)) (drop (nat k) xs))"

section \<open>The validation library\<close>

text \<open>
  The validators of \<^verbatim>\<open>src/index.ts\<close> are built from the combinators of the io-ts package
  and reported with io-ts-reporters. Neither package is part of the repository's sources,
  so this section models them from section 4.1 of the specification. A validation
  failure carries the value that failed and its context: the keys on the path from the
  root to the failing value, each with the name of the type expected there.
\<close>

type_synonym "context" = "(string \<times> string) list"

datatype validation_error = ValidationError (err_value: mixed) (err_context: "context")

type_synonym 'a validation = "validation_error list + 'a"

record 'a Type =
  name :: string
  validate :: "mixed \<Rightarrow> context \<Rightarrow> 'a validation"

definition failure :: "mixed \<Rightarrow> context \<Rightarrow> 'a validation" where
  "failure u c = Inl [ValidationError u c]"

definition success :: "'a \<Rightarrow> 'a validation" where
  "success a = Inr a"

definition appendContext :: "context \<Rightarrow> string \<Rightarrow> 'a Type \<Rightarrow> context" where
  "appendContext c k t = c @ [(k, name t)]"

definition getDefaultContext :: "'a Type \<Rightarrow> context" where
  "getDefaultContext t = [('''', name t)]"

text \<open>
  Modelled from the spec: \<^verbatim>\<open>Type.decode\<close> of io-ts, the \<open>decode(schema, input)\<close> of
  section 4.1. The result is either the typed value or the list of failures, never both.
\<close>

definition decode :: "'a Type \<Rightarrow> json \<Rightarrow> 'a validation" where
  "decode t i = validate t (Some i) (getDefaultContext t)"

text \<open>
  Modelled from the spec: the primitive validators \<^verbatim>\<open>t.string\<close>, \<^verbatim>\<open>t.number\<close>, \<^verbatim>\<open>t.boolean\<close>
  and \<^verbatim>\<open>t.undefined\<close> of io-ts. Each accepts exactly the values of its JavaScript type:
  \<^verbatim>\<open>t.string\<close> every string (its static type is \<^verbatim>\<open>string\<close>), \<^verbatim>\<open>t.number\<close> "any value of the
  numeric JSON type", \<^verbatim>\<open>t.undefined\<close> only an absent value.
\<close>

definition t_string :: "string Type" where
  "t_string = \<lparr>name = ''string'',
     validate = (\<lambda>u c. case u of Some (JStr s) \<Rightarrow> success s | _ \<Rightarrow> failure u c)\<rparr>"

definition t_number :: "rat Type" where
  "t_number = \<lparr>name = ''number'',
     validate = (\<lambda>u c. case u of Some (JNum n) \<Rightarrow> success n | _ \<Rightarrow> failure u c)\<rparr>"

definition t_boolean :: "bool Type" where
  "t_boolean = \<lparr>name = ''boolean'',
     validate = (\<lambda>u c. case u of Some (JBool b) \<Rightarrow> success b | _ \<Rightarrow> failure u c)\<rparr>"

definition t_undefined :: "unit Type" where
  "t_undefined = \<lparr>name = ''undefined'',
     validate = (\<lambda>u c. case u of None \<Rightarrow> success () | _ \<Rightarrow> failure u c)\<rparr>"

text \<open>
  Modelled from the spec: \<^verbatim>\<open>t.literal(v)\<close> of io-ts for a string \<open>v\<close>, the "literal tag
  value" of a schema. Its name is \<^verbatim>\<open>JSON.stringify(v)\<close>, the tag in double quotes.
\<close>

definition t_literal :: "string \<Rightarrow> string Type" where
  \<open>t_literal v = \<lparr>name = ''"'' @ v @ ''"'',
     validate = (\<lambda>u c. if u = Some (JStr v) then success v else failure u c)\<rparr>\<close>

text \<open>
  Failures are collected, not short-circuited: combining two validations keeps the
  failures of both, in order (the \<^verbatim>\<open>pushAll(errors, ...)\<close> loops of io-ts).
\<close>

definition apV :: "('a \<Rightarrow> 'b) validation \<Rightarrow> 'a validation \<Rightarrow> 'b validation" where
  "apV f x =
     (case f of
        Inl e1 \<Rightarrow> (case x of Inl e2 \<Rightarrow> Inl (e1 @ e2) | Inr _ \<Rightarrow> Inl e1)
      | Inr g \<Rightarrow> (case x of Inl e2 \<Rightarrow> Inl e2 | Inr a \<Rightarrow> Inr (g a)))"

fun sequenceV :: "'a validation list \<Rightarrow> 'a list validation" where
  "sequenceV [] = success []"
| "sequenceV (v # vs) = apV (apV (success (#)) v) (sequenceV vs)"

text \<open>
  Modelled from the spec: \<^verbatim>\<open>t.array(item)\<close> of io-ts. The input must be an array; element
  \<open>i\<close> is validated under the key \<^verbatim>\<open>String(i)\<close>, and the failures of all elements are kept.
\<close>

definition t_array :: "'a Type \<Rightarrow> 'a list Type" where
  "t_array item = \<lparr>name = ''Array<'' @ name item @ ''>'',
     validate = (\<lambda>u c. case u of
        Some (JArr xs) \<Rightarrow>
          sequenceV (map (\<lambda>(i, x). validate item (Some x) (appendContext c (string_of_nat i) item))
                         (enumerate 0 xs))
      | _ \<Rightarrow> failure u c)\<rparr>"

text \<open>
  Modelled from the spec: \<^verbatim>\<open>t.union([a, b], name)\<close> of io-ts for two members. The members
  are tried in order under the keys \<^verbatim>\<open>"0"\<close> and \<^verbatim>\<open>"1"\<close>; the first success is the result, and
  when both fail the failures of both are reported. The static type \<^verbatim>\<open>A | B\<close> is a sum.
\<close>

definition t_union :: "'a Type \<Rightarrow> 'b Type \<Rightarrow> string \<Rightarrow> ('a + 'b) Type" where
  "t_union a b nm = \<lparr>name = nm,
     validate = (\<lambda>u c.
        case validate a u (appendContext c ''0'' a) of
          Inr x \<Rightarrow> success (Inl x)
        | Inl e1 \<Rightarrow>
            (case validate b u (appendContext c ''1'' b) of
               Inr y \<Rightarrow> success (Inr y)
             | Inl e2 \<Rightarrow> Inl (e1 @ e2)))\<rparr>"

text \<open>
  Modelled from the spec: the check every object validator of io-ts starts with
  (\<^verbatim>\<open>Dictionary.validate\<close>): the input must be a JSON object, otherwise there is one
  failure, at the context of the validator itself.
\<close>

definition dictionary :: "mixed \<Rightarrow> context \<Rightarrow> (string \<times> json) list validation" where
  "dictionary u c = (case u of Some (JObj d) \<Rightarrow> success d | _ \<Rightarrow> failure u c)"

text \<open>
  Modelled from the spec: one property of \<^verbatim>\<open>t.type({...})\<close>. The property \<open>k\<close> of the object
  is read (\<^verbatim>\<open>o[k]\<close>, \<^verbatim>\<open>undefined\<close> when the key is missing) and validated under the key \<open>k\<close>.
  Properties the schema does not declare are never read.
\<close>

definition validate_prop :: "string \<Rightarrow> 'a Type \<Rightarrow> (string \<times> json) list \<Rightarrow> context \<Rightarrow> 'a validation" where
  "validate_prop k t d c = validate t (map_of d k) (appendContext c k t)"

text \<open>
  Modelled from the spec: \<^verbatim>\<open>t.type(props, name)\<close> of io-ts. \<open>props\<close> validates the declared
  properties of an object, in the order of their declaration, keeping every failure.
\<close>

definition t_type ::
  "((string \<times> json) list \<Rightarrow> context \<Rightarrow> 'a validation) \<Rightarrow> string \<Rightarrow> 'a Type" where
  "t_type props nm = \<lparr>name = nm,
     validate = (\<lambda>u c. case dictionary u c of Inl e \<Rightarrow> Inl e | Inr d \<Rightarrow> props d c)\<rparr>"

text \<open>
  Modelled from the spec: \<^verbatim>\<open>t.intersection([...], name)\<close> of io-ts with one, two and
  three members. Every member validates the same input under the same context, the
  failures of all members are kept, and the static type is the intersection of the
  members' types: \<open>f\<close> builds its value from theirs.
\<close>

definition t_intersection1 :: "('a \<Rightarrow> 'r) \<Rightarrow> 'a Type \<Rightarrow> string \<Rightarrow> 'r Type" where
  "t_intersection1 f a nm = \<lparr>name = nm,
     validate = (\<lambda>u c. apV (success f) (validate a u c))\<rparr>"

definition t_intersection2 ::
  "('a \<Rightarrow> 'b \<Rightarrow> 'r) \<Rightarrow> 'a Type \<Rightarrow> 'b Type \<Rightarrow> string \<Rightarrow> 'r Type" where
  "t_intersection2 f a b nm = \<lparr>name = nm,
     validate = (\<lambda>u c. apV (apV (success f) (validate a u c)) (validate b u c))\<rparr>"

definition t_intersection3 ::
  "('a \<Rightarrow> 'b \<Rightarrow> 'c \<Rightarrow> 'r) \<Rightarrow> 'a Type \<Rightarrow> 'b Type \<Rightarrow> 'c Type \<Rightarrow> string \<Rightarrow> 'r Type" where
  "t_intersection3 f a b c' nm = \<lparr>name = nm,
     validate = (\<lambda>u c.
        apV (apV (apV (success f) (validate a u c)) (validate b u c)) (validate c' u c))\<rparr>"

text \<open>
  Modelled from the spec: \<^verbatim>\<open>t.taggedUnion(tag, types, name)\<close> of io-ts, the tagged-union
  decoding algorithm of section 4.1. Each variant comes with the literal of its tag
  property. Step 1 reads the tag of the input object and fails with one failure, at the
  tag's key and naming the accepted literals, unless it is one of them; step 2 selects the
  one variant with that tag; step 3 validates the object against that variant alone.
\<close>

definition TagValue :: "string list \<Rightarrow> string Type" where
  \<open>TagValue vals = \<lparr>name = join '' | '' (map (\<lambda>l. ''"'' @ l @ ''"'') vals),
     validate = (\<lambda>u c. case u of
        Some (JStr m) \<Rightarrow> if m \<in> set vals then success m else failure u c
      | _ \<Rightarrow> failure u c)\<rparr>\<close>

fun getIndex :: "string list \<Rightarrow> string \<Rightarrow> nat" where
  "getIndex [] v = 0"
| "getIndex (x # xs) v = (if x = v then 0 else Suc (getIndex xs v))"

definition t_taggedUnion :: "string \<Rightarrow> (string \<times> 'a Type) list \<Rightarrow> string \<Rightarrow> 'a Type" where
  "t_taggedUnion tag types nm = \<lparr>name = nm,
     validate = (\<lambda>u c.
        case dictionary u c of
          Inl e \<Rightarrow> Inl e
        | Inr d \<Rightarrow>
            (case validate (TagValue (map fst types)) (map_of d tag)
                    (appendContext c tag (TagValue (map fst types))) of
               Inl e \<Rightarrow> Inl e
             | Inr v \<Rightarrow>
                 (let i = getIndex (map fst types) v;
                      type = snd (types ! i)
                  in validate type (Some (JObj d)) (appendContext c (string_of_nat i) type))))\<rparr>"

text \<open>
  Modelled from the spec: the reporter of io-ts-reporters. One line per failure: the
  expected type (the name at the end of the context), the path (the non-empty keys of
  the context, joined with dots) and the actual value, printed with \<^verbatim>\<open>JSON.stringify\<close>
  (\<open>stringify\<close>, a parameter) or as \<^verbatim>\<open>undefined\<close>. A failure without a context gets no
  line.
\<close>

definition jsToString :: "(json \<Rightarrow> string) \<Rightarrow> mixed \<Rightarrow> string" where
  "jsToString stringify v = (case v of None \<Rightarrow> ''undefined'' | Some j \<Rightarrow> stringify j)"

definition error_path :: "validation_error \<Rightarrow> string" where
  "error_path e = join ''.'' (filter (\<lambda>k. k \<noteq> []) (map fst (err_context e)))"

definition failure_line :: "(json \<Rightarrow> string) \<Rightarrow> validation_error \<Rightarrow> string" where
  "failure_line stringify e =
     ''Expecting '' @ snd (last (err_context e))
     @ (if error_path e = [] then [] else '' at '' @ error_path e)
     @ '' but instead got: '' @ jsToString stringify (err_value e) @ ''.''"

definition formatValidationError :: "(json \<Rightarrow> string) \<Rightarrow> validation_error \<Rightarrow> string option" where
  "formatValidationError stringify e =
     (if err_context e = [] then None else Some (failure_line stringify e))"

definition reporter :: "(json \<Rightarrow> string) \<Rightarrow> 'a validation \<Rightarrow> string list" where
  "reporter stringify validation =
     (case validation of
        Inl errors \<Rightarrow> List.map_filter (formatValidationError stringify) errors
      | Inr _ \<Rightarrow> [])"

section \<open>Types and validators of the program\<close>

text \<open>
  The static types \<^verbatim>\<open>t.TypeOf\<close> gives the validators of \<^verbatim>\<open>src/index.ts\<close>, and the validators
  themselves, property by property in the order of the source. A property declared with
  \<open>optional\<close> has the type \<^verbatim>\<open>T | undefined\<close>: \<open>Inl v\<close> when it is there, \<open>Inr ()\<close> when it is
  absent. The \<^verbatim>\<open>type\<close> tag of an item is the constructor of \<open>Item\<close>.
\<close>

type_synonym ID = rat

type_synonym 'a or_undefined = "'a + unit"

datatype ItemCommon = ItemCommon
  (item_by: string)
  (item_id: ID)
  (item_time: rat)
  (item_dead: "bool or_undefined")
  (item_deleted: "bool or_undefined")
  (item_kids: "ID list or_undefined")

datatype TopLevel = TopLevel
  (item_score: rat)
  (item_title: string)

datatype StoryProps = StoryProps
  (story_descendants: rat)
  (story_text: "string or_undefined")
  (story_url: "string or_undefined")

datatype JobProps = JobProps
  (job_text: "string or_undefined")
  (job_url: "string or_undefined")

datatype PollProps = PollProps
  (poll_descendants: rat)
  (poll_parts: "ID list")

datatype CommentProps = CommentProps
  (comment_parent: ID)
  (comment_text: string)

datatype PollOptProps = PollOptProps
  (pollopt_poll: ID)
  (pollopt_score: rat)
  (pollopt_text: string)

datatype Item =
    Comment CommentProps ItemCommon
  | Job JobProps ItemCommon TopLevel
  | Poll PollProps ItemCommon TopLevel
  | PollOpt PollOptProps
  | Story StoryProps ItemCommon TopLevel

definition ID_V :: "ID Type" where
  "ID_V = t_number"

definition optional :: "'a Type \<Rightarrow> 'a or_undefined Type" where
  "optional type = t_union type t_undefined (''?'' @ name type)"

definition ItemCommonV :: "ItemCommon Type" where
  "ItemCommonV = t_type (\<lambda>d c.
      apV (apV (apV (apV (apV (apV (success ItemCommon)
        (validate_prop ''by'' t_string d c))
        (validate_prop ''id'' ID_V d c))
        (validate_prop ''time'' t_number d c))
        (validate_prop ''dead'' (optional t_boolean) d c))
        (validate_prop ''deleted'' (optional t_boolean) d c))
        (validate_prop ''kids'' (optional (t_array ID_V)) d c))
    ''ItemCommon''"

definition TopLevelV :: "TopLevel Type" where
  "TopLevelV = t_type (\<lambda>d c.
      apV (apV (success TopLevel)
        (validate_prop ''score'' t_number d c))
        (validate_prop ''title'' t_string d c))
    ''TopLevel''"

definition StoryV :: "Item Type" where
  \<open>StoryV = t_intersection3 Story
     (t_type (\<lambda>d c.
        apV (apV (apV (apV (success (\<lambda>_. StoryProps))
          (validate_prop ''type'' (t_literal ''story'') d c))
          (validate_prop ''descendants'' t_number d c))
          (validate_prop ''text'' (optional t_string) d c))
          (validate_prop ''url'' (optional t_string) d c))
        ''{ type: "story", descendants: number, text: ?string, url: ?string }'')
     ItemCommonV
     TopLevelV
     ''Story''\<close>

definition JobV :: "Item Type" where
  \<open>JobV = t_intersection3 Job
     (t_type (\<lambda>d c.
        apV (apV (apV (success (\<lambda>_. JobProps))
          (validate_prop ''type'' (t_literal ''job'') d c))
          (validate_prop ''text'' (optional t_string) d c))
          (validate_prop ''url'' (optional t_string) d c))
        ''{ type: "job", text: ?string, url: ?string }'')
     ItemCommonV
     TopLevelV
     ''Job''\<close>

definition PollV :: "Item Type" where
  \<open>PollV = t_intersection3 Poll
     (t_type (\<lambda>d c.
        apV (apV (apV (success (\<lambda>_. PollProps))
          (validate_prop ''type'' (t_literal ''poll'') d c))
          (validate_prop ''descendants'' t_number d c))
          (validate_prop ''parts'' (t_array ID_V) d c))
        ''{ type: "poll", descendants: number, parts: Array<number> }'')
     ItemCommonV
     TopLevelV
     ''Poll''\<close>

definition CommentV :: "Item Type" where
  \<open>CommentV = t_intersection2 Comment
     (t_type (\<lambda>d c.
        apV (apV (apV (success (\<lambda>_. CommentProps))
          (validate_prop ''type'' (t_literal ''comment'') d c))
          (validate_prop ''parent'' ID_V d c))
          (validate_prop ''text'' t_string d c))
        ''{ type: "comment", parent: number, text: string }'')
     ItemCommonV
     ''Comment''\<close>

definition PollOptV :: "Item Type" where
  \<open>PollOptV = t_intersection1 PollOpt
     (t_type (\<lambda>d c.
        apV (apV (apV (apV (success (\<lambda>_. PollOptProps))
          (validate_prop ''type'' (t_literal ''pollopt'') d c))
          (validate_prop ''poll'' ID_V d c))
          (validate_prop ''score'' t_number d c))
          (validate_prop ''text'' t_string d c))
        ''{ type: "pollopt", poll: number, score: number, text: string }'')
     ''PollOpt''\<close>

definition ItemV :: "Item Type" where
  "ItemV = t_taggedUnion ''type''
     [(''comment'', CommentV), (''job'', JobV), (''poll'', PollV),
      (''pollopt'', PollOptV), (''story'', StoryV)]
     ''Item''"

section \<open>The presenter\<close>

text \<open>
  \<^verbatim>\<open>formatItem\<close>: a switch on the tag with one case per variant and no default. A template
  literal concatenates; \<^verbatim>\<open>item.parts.length\<close> is printed in decimal.
\<close>

definition formatItem :: "Item \<Rightarrow> string" where
  \<open>formatItem item =
     (case item of
        Story p c t \<Rightarrow> ''"'' @ item_title t @ ''" submitted by '' @ item_by c
      | Job p c t \<Rightarrow> ''job posting: '' @ item_title t
      | Poll p c t \<Rightarrow>
          (let numOpts = length (poll_parts p)
           in ''poll: "'' @ item_title t @ ''" - choose one of '' @ string_of_nat numOpts
              @ '' options'')
      | PollOpt p \<Rightarrow> ''poll option: '' @ pollopt_text p
      | Comment p c \<Rightarrow>
          (let excerpt =
                 (if length (comment_text p) > 60
                  then slice (comment_text p) 0 60 @ ''...''
                  else comment_text p)
           in item_by c @ '' commented: '' @ excerpt))\<close>

section \<open>Fetching\<close>

text \<open>
  A promise is modelled by how it settles: \<open>Inl\<close> a rejection with its reason, an
  \<^verbatim>\<open>Error\<close> object with a message, \<open>Inr\<close> a fulfilment with its value. What the program
  runs against is a parameter: the answer of the network to each of the two requests
  (\<^verbatim>\<open>fetch\<close> followed by \<^verbatim>\<open>res.json()\<close>: a rejection or the parsed body) and the
  \<^verbatim>\<open>JSON.stringify\<close> the reporter prints values with. The URL of an item is built from
  its identifier alone, so the answers to the item requests are indexed by identifier.
\<close>

datatype js_error = Error (message: string)

type_synonym 'a promise = "js_error + 'a"

record runtime =
  fetch_topstories :: "json promise"
  fetch_item :: "ID \<Rightarrow> json promise"
  JSON_stringify :: "json \<Rightarrow> string"

definition decodeToPromise :: "runtime \<Rightarrow> 'a Type \<Rightarrow> json \<Rightarrow> 'a promise" where
  "decodeToPromise rt validator input =
     (let result = decode validator input
      in case result of
           Inl errors \<Rightarrow>
             (let messages = reporter (JSON_stringify rt) result
              in Inl (Error (join ''\<newline>'' messages)))
         | Inr v \<Rightarrow> Inr v)"

definition fetchItem :: "runtime \<Rightarrow> ID \<Rightarrow> Item promise" where
  "fetchItem rt i =
     (case fetch_item rt i of
        Inl err \<Rightarrow> Inl err
      | Inr obj \<Rightarrow> decodeToPromise rt ItemV obj)"

text \<open>
  \<^verbatim>\<open>Promise.all\<close> as ECMAScript defines it. The promises have all been created; they settle
  one after the other in the order \<open>sched\<close> lists their indices. A fulfilment stores its value
  at the promise's index and counts down; the last one fulfils the result with the stored
  values. The first rejection rejects the result. A result that has settled stays as it
  is, and so does the slot of a promise that has already fulfilled; an index that is
  no promise's is skipped. \<open>None\<close> is a result that is still pending when \<open>sched\<close> ends.
\<close>

record 'a all_state =
  stored :: "'a option list"
  remaining :: nat
  outcome :: "'a list promise option"

definition all_init :: "'a promise list \<Rightarrow> 'a all_state" where
  "all_init ps =
     \<lparr>stored = replicate (length ps) None,
      remaining = length ps,
      outcome = (if ps = [] then Some (Inr []) else None)\<rparr>"

definition all_settle :: "'a promise list \<Rightarrow> 'a all_state \<Rightarrow> nat \<Rightarrow> 'a all_state" where
  "all_settle ps s i =
     (if length ps \<le> i then s
      else case ps ! i of
        Inl reason \<Rightarrow>
          (if outcome s = None then s\<lparr>outcome := Some (Inl reason)\<rparr> else s)
      | Inr v \<Rightarrow>
          (if stored s ! i \<noteq> None then s
           else let vals = (stored s)[i := Some v];
                    r = remaining s - 1
                in \<lparr>stored = vals,
                    remaining = r,
                    outcome = (if r = 0 \<and> outcome s = None
                               then Some (Inr (map the vals)) else outcome s)\<rparr>))"

definition Promise_all :: "nat list \<Rightarrow> 'a promise list \<Rightarrow> 'a list promise option" where
  "Promise_all sched ps = outcome (foldl (all_settle ps) (all_init ps) sched)"

text \<open>
  \<^verbatim>\<open>fetchTopStories\<close>: the identifier list is fetched and decoded first; then one
  \<^verbatim>\<open>fetchItem\<close> per identifier of \<^verbatim>\<open>ids.slice(0, count)\<close> is started, and \<^verbatim>\<open>Promise.all\<close> waits
  for them. \<open>sched\<close> is the order in which the item requests complete.
\<close>

definition fetchTopStories :: "runtime \<Rightarrow> nat list \<Rightarrow> int \<Rightarrow> Item list promise option" where
  "fetchTopStories rt sched count =
     (case fetch_topstories rt of
        Inl err \<Rightarrow> Some (Inl err)
      | Inr body \<Rightarrow>
          (case decodeToPromise rt (t_array ID_V) body of
             Inl err \<Rightarrow> Some (Inl err)
           | Inr ids \<Rightarrow> Promise_all sched (map (\<lambda>i. fetchItem rt i) (slice ids 0 count))))"

section \<open>The client\<close>

text \<open>
  \<^verbatim>\<open>main\<close>: what a run writes, one list entry per call of \<^verbatim>\<open>console.log\<close> and
  \<^verbatim>\<open>console.error\<close>, and how the promise \<^verbatim>\<open>main()\<close> returns settles. The \<^verbatim>\<open>catch\<close> block
  handles every rejection of the \<^verbatim>\<open>try\<close> block and neither throws again nor touches the
  exit code. The script calls \<^verbatim>\<open>main()\<close> and nothing else, so node ends the process with
  code 0 when that promise fulfils, and with code 1 when it rejects with nobody handling it.
\<close>

record run =
  stdout :: "string list"
  stderr :: "string list"
  settled :: "unit promise"

definition main :: "runtime \<Rightarrow> nat list \<Rightarrow> run option" where
  "main rt sched =
     (case fetchTopStories rt sched 15 of
        None \<Rightarrow> None
      | Some (Inr stories) \<Rightarrow>
          Some \<lparr>stdout = map (\<lambda>story. formatItem story @ ''\<newline>'') stories,
                stderr = [],
                settled = Inr ()\<rparr>
      | Some (Inl err) \<Rightarrow>
          Some \<lparr>stdout = [], stderr = [message err], settled = Inr ()\<rparr>)"

definition exit_code :: "run \<Rightarrow> nat" where
  "exit_code r = (case settled r of Inr _ \<Rightarrow> 0 | Inl _ \<Rightarrow> 1)"


section \<open>The schema as data\<close>

text \<open>
  What the validators above declare, as a table: for each tag the properties of its
  variant, in the order they are validated, each with the kind of value its validator
  accepts. The lemmas below prove the table against the validators. \<open>failures_of\<close> reads
  the failures off a validation (none when it succeeded), and \<open>item_type\<close> is the
  \<^verbatim>\<open>type\<close> property of a decoded item.
\<close>

definition failures_of :: "'a validation \<Rightarrow> validation_error list" where
  "failures_of v = (case v of Inl es \<Rightarrow> es | Inr _ \<Rightarrow> [])"

datatype field_kind = Text | Number | Boolean | Numbers | Literal string | Optional field_kind

fun conforms :: "field_kind \<Rightarrow> mixed \<Rightarrow> bool" where
  "conforms Text u = (case u of Some (JStr _) \<Rightarrow> True | _ \<Rightarrow> False)"
| "conforms Number u = (case u of Some (JNum _) \<Rightarrow> True | _ \<Rightarrow> False)"
| "conforms Boolean u = (case u of Some (JBool _) \<Rightarrow> True | _ \<Rightarrow> False)"
| "conforms Numbers u =
     (case u of
        Some (JArr xs) \<Rightarrow> list_all (\<lambda>x. case x of JNum _ \<Rightarrow> True | _ \<Rightarrow> False) xs
      | _ \<Rightarrow> False)"
| "conforms (Literal v) u = (u = Some (JStr v))"
| "conforms (Optional k) u = (if u = None then True else conforms k u)"

definition item_tags :: "string list" where
  "item_tags = [''comment'', ''job'', ''poll'', ''pollopt'', ''story'']"

definition common_fields :: "(string \<times> field_kind) list" where
  "common_fields =
     [(''by'', Text), (''id'', Number), (''time'', Number), (''dead'', Optional Boolean),
      (''deleted'', Optional Boolean), (''kids'', Optional Numbers)]"

definition top_level_fields :: "(string \<times> field_kind) list" where
  "top_level_fields = [(''score'', Number), (''title'', Text)]"

definition declared_fields :: "string \<Rightarrow> (string \<times> field_kind) list" where
  "declared_fields tag =
     (if tag = ''story'' then
        [(''type'', Literal ''story''), (''descendants'', Number), (''text'', Optional Text),
         (''url'', Optional Text)] @ common_fields @ top_level_fields
      else if tag = ''job'' then
        [(''type'', Literal ''job''), (''text'', Optional Text), (''url'', Optional Text)]
        @ common_fields @ top_level_fields
      else if tag = ''poll'' then
        [(''type'', Literal ''poll''), (''descendants'', Number), (''parts'', Numbers)]
        @ common_fields @ top_level_fields
      else if tag = ''comment'' then
        [(''type'', Literal ''comment''), (''parent'', Number), (''text'', Text)] @ common_fields
      else if tag = ''pollopt'' then
        [(''type'', Literal ''pollopt''), (''poll'', Number), (''score'', Number), (''text'', Text)]
      else [])"

definition item_type :: "Item \<Rightarrow> string" where
  "item_type item =
     (case item of
        Comment _ _ \<Rightarrow> ''comment''
      | Job _ _ _ \<Rightarrow> ''job''
      | Poll _ _ _ \<Rightarrow> ''poll''
      | PollOpt _ \<Rightarrow> ''pollopt''
      | Story _ _ _ \<Rightarrow> ''story'')"

text \<open>
  A validator checks a kind of value when it fails on exactly the values that do not
  conform to the kind, every failure it reports lies at or below the context it was
  given, and a failed validation reports at least one failure.
\<close>

definition checks :: "'a Type \<Rightarrow> field_kind \<Rightarrow> bool" where
  "checks t k \<longleftrightarrow>
     (\<forall>u c. (isl (validate t u c) \<longleftrightarrow> \<not> conforms k u) \<and>
            (isl (validate t u c) \<longrightarrow> failures_of (validate t u c) \<noteq> []) \<and>
            (\<forall>e\<in>set (failures_of (validate t u c)). take (length c) (err_context e) = c))"

text \<open>
  The validation of an object's properties follows a table of fields when it fails
  exactly on the objects with a declared field that does not conform, reports for every
  such field a failure whose path holds the field's key, reports only failures at or
  below the context it was given and at least one when it fails, and reads nothing of
  the object but the declared fields.
\<close>

definition follows ::
  "((string \<times> json) list \<Rightarrow> context \<Rightarrow> 'a validation) \<Rightarrow> (string \<times> field_kind) list \<Rightarrow> bool" where
  "follows props table \<longleftrightarrow>
     (\<forall>d c.
        (isl (props d c) \<longleftrightarrow> (\<exists>(k, kind)\<in>set table. \<not> conforms kind (map_of d k))) \<and>
        (\<forall>(k, kind)\<in>set table. \<not> conforms kind (map_of d k) \<longrightarrow>
           (\<exists>e\<in>set (failures_of (props d c)). k \<in> fst ` set (err_context e))) \<and>
        (\<forall>e\<in>set (failures_of (props d c)). take (length c) (err_context e) = c) \<and>
        (isl (props d c) \<longrightarrow> failures_of (props d c) \<noteq> []) \<and>
        (\<forall>d'. (\<forall>(k, kind)\<in>set table. map_of d' k = map_of d k) \<longrightarrow> props d' c = props d c))"

section \<open>Example inputs\<close>

text \<open>
  Bodies as the two endpoints return them, and runtimes that serve them. The printer of
  the examples only tells \<^verbatim>\<open>null\<close> from other values. \<open>rt_items\<close> answers every request;
  \<open>rt_missing\<close> answers \<^verbatim>\<open>null\<close> for item 2, as the API does for an item that does not exist;
  \<open>rt_timeout\<close> rejects the request for item 3;
  \<open>rt_down\<close> rejects the first request; \<open>rt_not_a_list\<close> answers the first request with an
  object instead of an array.
\<close>

definition story_fields :: "(string \<times> json) list" where
  "story_fields =
     [(''by'', JStr ''pg''), (''descendants'', JNum 0), (''id'', JNum 1), (''score'', JNum 57),
      (''time'', JNum 1160418111), (''title'', JStr ''Y Combinator''), (''type'', JStr ''story''),
      (''url'', JStr ''http://ycombinator.com'')]"

definition story_json :: json where
  "story_json = JObj story_fields"

definition comment_json :: json where
  "comment_json = JObj
     [(''by'', JStr ''sama''), (''id'', JNum 2), (''kids'', JArr [JNum 454411]),
      (''parent'', JNum 1), (''text'', JStr ''Nice''), (''time'', JNum 1160418628),
      (''type'', JStr ''comment'')]"

definition pollopt_json :: json where
  "pollopt_json = JObj
     [(''poll'', JNum 126809), (''score'', JNum 335), (''text'', JStr ''Yes''),
      (''type'', JStr ''pollopt'')]"

definition story_item :: Item where
  "story_item = Story (StoryProps 0 (Inr ()) (Inl ''http://ycombinator.com''))
     (ItemCommon ''pg'' 1 1160418111 (Inr ()) (Inr ()) (Inr ())) (TopLevel 57 ''Y Combinator'')"

definition comment_item :: Item where
  "comment_item = Comment (CommentProps 1 ''Nice'')
     (ItemCommon ''sama'' 2 1160418628 (Inr ()) (Inr ()) (Inl [454411]))"

definition pollopt_item :: Item where
  "pollopt_item = PollOpt (PollOptProps 126809 335 ''Yes'')"

text \<open>
  A story whose author and title are empty strings, and a story whose author is a number
  and whose title is missing.
\<close>

definition anonymous_json :: json where
  "anonymous_json = JObj
     [(''by'', JStr []), (''descendants'', JNum 0), (''id'', JNum 1), (''score'', JNum 57),
      (''time'', JNum 1160418111), (''title'', JStr []), (''type'', JStr ''story'')]"

definition broken_fields :: "(string \<times> json) list" where
  "broken_fields =
     [(''by'', JNum 3), (''descendants'', JNum 0), (''id'', JNum 1), (''score'', JNum 57),
      (''time'', JNum 1160418111), (''type'', JStr ''story'')]"

definition example_stringify :: "json \<Rightarrow> string" where
  "example_stringify j = (case j of JNull \<Rightarrow> ''null'' | _ \<Rightarrow> ''[value]'')"

definition example_items :: "ID \<Rightarrow> json promise" where
  "example_items i =
     (if i = 1 then Inr story_json
      else if i = 2 then Inr comment_json
      else if i = 3 then Inr pollopt_json
      else Inr JNull)"

definition rt_items :: runtime where
  "rt_items =
     \<lparr>fetch_topstories = Inr (JArr [JNum 1, JNum 2, JNum 3]),
      fetch_item = example_items,
      JSON_stringify = example_stringify\<rparr>"

definition rt_missing :: runtime where
  "rt_missing =
     \<lparr>fetch_topstories = Inr (JArr [JNum 1, JNum 2, JNum 3]),
      fetch_item = (\<lambda>i. if i = 2 then Inr JNull else example_items i),
      JSON_stringify = example_stringify\<rparr>"

definition rt_timeout :: runtime where
  "rt_timeout =
     \<lparr>fetch_topstories = Inr (JArr [JNum 1, JNum 2, JNum 3]),
      fetch_item = (\<lambda>i. if i = 3 then Inl (Error ''request timed out'') else example_items i),
      JSON_stringify = example_stringify\<rparr>"

definition rt_down :: runtime where
  "rt_down =
     \<lparr>fetch_topstories = Inl (Error ''network down''),
      fetch_item = example_items,
      JSON_stringify = example_stringify\<rparr>"

definition rt_not_a_list :: runtime where
  "rt_not_a_list =
     \<lparr>fetch_topstories = Inr (JObj [(''error'', JStr ''Permission denied'')]),
      fetch_item = example_items,
      JSON_stringify = example_stringify\<rparr>"

section \<open>Arrays and promises\<close>

text \<open>\<^verbatim>\<open>xs.slice(0, e)\<close> keeps a prefix of the array.\<close>

lemma slice_from_0:
  "slice xs 0 e = (if 0 \<le> e then take (nat e) xs else take (length xs - nat (- e)) xs)"
proof -
  have "e < 0 \<Longrightarrow> nat (max (int (length xs) + e) 0) = length xs - nat (- e)"
    by arith
  moreover have "0 \<le> e \<Longrightarrow> take (nat (min e (int (length xs)))) xs = take (nat e) xs"
    by (simp add: min_def)
  ultimately show ?thesis
    by (simp add: slice_def Let_def)
qed

text \<open>
  The state of \<^verbatim>\<open>Promise.all\<close> after any sequence of settlements, and from it the result:
  the reason of the first rejection in completion order, or the values in the order of
  the promises once every promise has fulfilled.
\<close>

lemma foldl_snoc_settle:
  "foldl (all_settle ps) s (xs @ [x]) = all_settle ps (foldl (all_settle ps) s xs) x"
  by simp

lemma stored_after:
  "stored (foldl (all_settle ps) (all_init ps) sched) =
     map (\<lambda>i. if i \<in> set sched then (case ps ! i of Inr v \<Rightarrow> Some v | Inl _ \<Rightarrow> None) else None)
         [0..<length ps]"
proof (induction sched rule: rev_induct)
  case Nil
  show ?case
    by (simp add: all_init_def map_replicate_const)
next
  case (snoc x xs)
  let ?s = "foldl (all_settle ps) (all_init ps) xs"
  show ?case
  proof (cases "length ps \<le> x")
    case True
    then have "all_settle ps ?s x = ?s"
      by (simp add: all_settle_def)
    with snoc True show ?thesis
      by (intro nth_equalityI) auto
  next
    case False
    then have lt: "x < length ps" by simp
    show ?thesis
    proof (cases "ps ! x")
      case (Inl e)
      then have "stored (all_settle ps ?s x) = stored ?s"
        using lt by (simp add: all_settle_def)
      with snoc Inl lt show ?thesis
        by (intro nth_equalityI) auto
    next
      case (Inr v)
      show ?thesis
      proof (cases "stored ?s ! x = None")
        case True
        then have "stored (all_settle ps ?s x) = (stored ?s)[x := Some v]"
          using lt Inr by (simp add: all_settle_def Let_def)
        with snoc Inr lt show ?thesis
          by (intro nth_equalityI) (auto simp: nth_list_update)
      next
        case False
        then have same: "all_settle ps ?s x = ?s"
          using lt Inr by (simp add: all_settle_def)
        from False snoc lt have "x \<in> set xs"
          by (auto split: if_splits)
        with snoc same show ?thesis
          by (intro nth_equalityI) auto
      qed
    qed
  qed
qed


lemma stored_None_iff:
  assumes "x < length ps" "ps ! x = Inr v"
  shows "stored (foldl (all_settle ps) (all_init ps) xs) ! x = None \<longleftrightarrow> x \<notin> set xs"
  using assms by (simp add: stored_after)

lemma remaining_after:
  "remaining (foldl (all_settle ps) (all_init ps) sched) =
     length ps - card {i. i < length ps \<and> i \<in> set sched \<and> \<not> isl (ps ! i)}"
proof (induction sched rule: rev_induct)
  case Nil
  show ?case by (simp add: all_init_def)
next
  case (snoc x xs)
  let ?s = "foldl (all_settle ps) (all_init ps) xs"
  let ?F = "\<lambda>ys. {i. i < length ps \<and> i \<in> set ys \<and> \<not> isl (ps ! i)}"
  show ?case
  proof (cases "x < length ps \<and> \<not> isl (ps ! x) \<and> x \<notin> set xs")
    case True
    then obtain v where v: "ps ! x = Inr v"
      by (cases "ps ! x") auto
    from True v have "stored ?s ! x = None"
      by (simp add: stored_None_iff)
    with True v have "remaining (all_settle ps ?s x) = remaining ?s - 1"
      by (simp add: all_settle_def Let_def)
    moreover have "?F (xs @ [x]) = insert x (?F xs)"
      using True by auto
    moreover have "x \<notin> ?F xs" "finite (?F xs)"
      using True by auto
    ultimately show ?thesis
      using snoc by simp
  next
    case False
    have "all_settle ps ?s x = ?s \<or> (\<exists>e. remaining (all_settle ps ?s x) = remaining ?s \<and> ps ! x = Inl e \<and> x < length ps)"
    proof (cases "x < length ps")
      case False
      then show ?thesis by (simp add: all_settle_def)
    next
      case True
      show ?thesis
      proof (cases "ps ! x")
        case (Inl e)
        with True show ?thesis by (simp add: all_settle_def)
      next
        case (Inr v)
        with True False have "x \<in> set xs" by simp
        with True Inr have "stored ?s ! x \<noteq> None"
          by (simp add: stored_None_iff)
        with True Inr show ?thesis by (simp add: all_settle_def)
      qed
    qed
    then have "remaining (all_settle ps ?s x) = remaining ?s"
      by auto
    moreover have "?F (xs @ [x]) = ?F xs"
      using False by auto
    ultimately show ?thesis
      using snoc by simp
  qed
qed


lemma remaining_0_iff:
  "remaining (foldl (all_settle ps) (all_init ps) sched) = 0 \<longleftrightarrow>
     (\<forall>i<length ps. i \<in> set sched \<and> \<not> isl (ps ! i))"
proof -
  let ?F = "{i. i < length ps \<and> i \<in> set sched \<and> \<not> isl (ps ! i)}"
  have sub: "?F \<subseteq> {..<length ps}" by auto
  have "length ps \<le> card ?F \<longleftrightarrow> ?F = {..<length ps}"
  proof
    assume "length ps \<le> card ?F"
    with sub show "?F = {..<length ps}"
      by (intro card_seteq) auto
  next
    assume "?F = {..<length ps}"
    then have "card ?F = length ps" by simp
    then show "length ps \<le> card ?F" by simp
  qed
  moreover have "?F = {..<length ps} \<longleftrightarrow> (\<forall>i<length ps. i \<in> set sched \<and> \<not> isl (ps ! i))"
    by auto
  ultimately show ?thesis
    by (simp add: remaining_after)
qed

lemma stored_complete:
  assumes "\<forall>i<length ps. i \<in> set sched \<and> \<not> isl (ps ! i)"
  shows "map the (stored (foldl (all_settle ps) (all_init ps) sched)) = map projr ps"
proof (intro nth_equalityI)
  show "length (map the (stored (foldl (all_settle ps) (all_init ps) sched))) = length (map projr ps)"
    by (simp add: stored_after)
next
  fix i
  assume "i < length (map the (stored (foldl (all_settle ps) (all_init ps) sched)))"
  then have i: "i < length ps"
    by (simp add: stored_after)
  with assms have "i \<in> set sched" "\<not> isl (ps ! i)" by auto
  then show "map the (stored (foldl (all_settle ps) (all_init ps) sched)) ! i = map projr ps ! i"
    using i by (cases "ps ! i") (simp_all add: stored_after)
qed

lemma settle_fulfil:
  assumes "x < length ps" "ps ! x = Inr v" "stored s ! x = None"
  shows "outcome (all_settle ps s x) =
           (if remaining (all_settle ps s x) = 0 \<and> outcome s = None
            then Some (Inr (map the (stored (all_settle ps s x)))) else outcome s)"
  using assms by (simp add: all_settle_def Let_def)

lemma find_snoc:
  "find P (xs @ [x]) = (case find P xs of Some i \<Rightarrow> Some i | None \<Rightarrow> if P x then Some x else None)"
  by (induction xs) auto

lemma outcome_after:
  "outcome (foldl (all_settle ps) (all_init ps) sched) =
     (if ps = [] then Some (Inr [])
      else case find (\<lambda>i. i < length ps \<and> isl (ps ! i)) sched of
             Some i \<Rightarrow> Some (Inl (projl (ps ! i)))
           | None \<Rightarrow> if {..<length ps} \<subseteq> set sched then Some (Inr (map projr ps)) else None)"
proof (induction sched rule: rev_induct)
  case Nil
  show ?case by (auto simp: all_init_def)
next
  case (snoc x xs)
  let ?P = "\<lambda>i. i < length ps \<and> isl (ps ! i)"
  let ?s = "foldl (all_settle ps) (all_init ps) xs"
  let ?s' = "foldl (all_settle ps) (all_init ps) (xs @ [x])"
  have s': "?s' = all_settle ps ?s x" by simp
  show ?case
  proof (cases "x < length ps")
    case False
    then have "?s' = ?s" by (simp add: all_settle_def)
    moreover have "{..<length ps} \<subseteq> set (xs @ [x]) \<longleftrightarrow> {..<length ps} \<subseteq> set xs"
      using False by auto
    ultimately show ?thesis
      using snoc False by (simp add: find_snoc split: option.splits)
  next
    case lt: True
    then have ne: "ps \<noteq> []" by auto
    show ?thesis
    proof (cases "ps ! x")
      case (Inl e)
      have out: "outcome ?s' = (if outcome ?s = None then Some (Inl e) else outcome ?s)"
        using lt Inl by (simp add: all_settle_def)
      show ?thesis
      proof (cases "find ?P xs")
        case (Some i)
        with snoc ne out show ?thesis
          by (simp add: find_snoc)
      next
        case None
        then have "\<not> ?P x \<or> x \<notin> set xs"
          by (auto simp: find_None_iff)
        with lt Inl have "x \<notin> set xs" by simp
        with lt have "\<not> {..<length ps} \<subseteq> set xs" by auto
        with snoc ne None have "outcome ?s = None" by simp
        with out None lt Inl ne show ?thesis
          by (simp add: find_snoc)
      qed
    next
      case (Inr v)
      then have nP: "\<not> ?P x" by simp
      show ?thesis
      proof (cases "x \<in> set xs")
        case True
        with lt Inr have "stored ?s ! x \<noteq> None"
          by (simp add: stored_None_iff)
        with lt Inr have "?s' = ?s" by (simp add: all_settle_def)
        moreover have "set (xs @ [x]) = set xs" using True by auto
        ultimately show ?thesis
          using snoc lt Inr by (simp add: find_snoc split: option.splits)
      next
        case False
        with lt Inr have "stored ?s ! x = None"
          by (simp add: stored_None_iff)
        from settle_fulfil [OF lt Inr this]
        have out: "outcome ?s' =
           (if remaining ?s' = 0 \<and> outcome ?s = None
            then Some (Inr (map the (stored ?s'))) else outcome ?s)"
          by simp
        show ?thesis
        proof (cases "find ?P xs")
          case (Some i)
          with snoc ne out show ?thesis
            by (simp add: find_snoc)
        next
          case None
          from False lt have "\<not> {..<length ps} \<subseteq> set xs" by auto
          with snoc ne None have sNone: "outcome ?s = None" by simp
          have fN: "find ?P (xs @ [x]) = None"
            using None nP by (simp add: find_snoc)
          then have all: "\<forall>i\<in>set (xs @ [x]). \<not> ?P i"
            by (simp only: find_None_iff) blast
          have iff: "(\<forall>i<length ps. i \<in> set (xs @ [x]) \<and> \<not> isl (ps ! i)) \<longleftrightarrow>
                     {..<length ps} \<subseteq> set (xs @ [x])"
            using all by auto
          show ?thesis
          proof (cases "{..<length ps} \<subseteq> set (xs @ [x])")
            case True
            with iff have c: "\<forall>i<length ps. i \<in> set (xs @ [x]) \<and> \<not> isl (ps ! i)" by simp
            then have "remaining ?s' = 0" by (simp only: remaining_0_iff)
            moreover have "map the (stored ?s') = map projr ps"
              using c by (rule stored_complete)
            ultimately have "outcome ?s' = Some (Inr (map projr ps))"
              using out sNone by simp
            with True fN ne show ?thesis by simp
          next
            case False
            with iff have "remaining ?s' \<noteq> 0" by (simp only: remaining_0_iff) simp
            with out sNone have "outcome ?s' = None" by simp
            with False fN ne show ?thesis by simp
          qed
        qed
      qed
    qed
  qed
qed

lemma Promise_all_eq:
  "Promise_all sched ps =
     (if ps = [] then Some (Inr [])
      else case find (\<lambda>i. i < length ps \<and> isl (ps ! i)) sched of
             Some i \<Rightarrow> Some (Inl (projl (ps ! i)))
           | None \<Rightarrow> if {..<length ps} \<subseteq> set sched then Some (Inr (map projr ps)) else None)"
  unfolding Promise_all_def by (rule outcome_after)

lemma Promise_all_fulfilled:
  assumes "set sched = {..<length ps}" "\<forall>p\<in>set ps. \<not> isl p"
  shows "Promise_all sched ps = Some (Inr (map projr ps))"
proof -
  have "find (\<lambda>i. i < length ps \<and> isl (ps ! i)) sched = None"
    using assms(2) by (auto simp: find_None_iff)
  with assms(1) show ?thesis
    by (simp add: Promise_all_eq)
qed

lemma Promise_all_rejected:
  assumes "set sched = {..<length ps}" "\<exists>p\<in>set ps. isl p"
  shows "\<exists>i<length ps. isl (ps ! i) \<and> Promise_all sched ps = Some (Inl (projl (ps ! i)))"
proof -
  from assms(2) obtain j where j: "j < length ps" "isl (ps ! j)"
    by (auto simp: in_set_conv_nth)
  with assms(1) have "j \<in> set sched" by simp
  with j have "find (\<lambda>i. i < length ps \<and> isl (ps ! i)) sched \<noteq> None"
    by (auto simp: find_None_iff)
  then obtain i where i: "find (\<lambda>i. i < length ps \<and> isl (ps ! i)) sched = Some i"
    by auto
  then have "i < length ps \<and> isl (ps ! i)"
    by (auto simp: find_Some_iff)
  moreover from j have "ps \<noteq> []" by auto
  ultimately show ?thesis
    using i by (auto simp: Promise_all_eq)
qed

section \<open>The examples, evaluated\<close>

text \<open>The example bodies decode to the example items, request by request.\<close>

lemmas validator_defs =
  decode_def ItemV_def t_taggedUnion_def getDefaultContext_def dictionary_def success_def
  failure_def TagValue_def appendContext_def StoryV_def JobV_def PollV_def CommentV_def PollOptV_def
  t_intersection3_def t_intersection2_def t_intersection1_def t_type_def apV_def validate_prop_def
  t_literal_def t_number_def t_string_def optional_def t_union_def t_undefined_def t_boolean_def
  t_array_def ItemCommonV_def TopLevelV_def ID_V_def string_of_nat.simps digit_char_def

lemma decode_story_json: "decode ItemV story_json = Inr story_item"
  by (simp add: story_json_def story_fields_def story_item_def validator_defs)

lemma decode_comment_json: "decode ItemV comment_json = Inr comment_item"
  by (simp add: comment_json_def comment_item_def validator_defs)

lemma decode_pollopt_json: "decode ItemV pollopt_json = Inr pollopt_item"
  by (simp add: pollopt_json_def pollopt_item_def validator_defs)

lemma decode_ids: "decode (t_array ID_V) (JArr [JNum 1, JNum 2, JNum 3]) = Inr [1, 2, 3]"
  by (simp add: validator_defs)

lemma fetchItem_examples:
  "fetchItem rt_items 1 = Inr story_item"
  "fetchItem rt_items 2 = Inr comment_item"
  "fetchItem rt_items 3 = Inr pollopt_item"
  "fetchItem rt_missing 1 = Inr story_item"
  "fetchItem rt_missing 2 = Inl (Error ''Expecting Item but instead got: null.'')"
  "fetchItem rt_missing 3 = Inr pollopt_item"
       apply (simp_all add: fetchItem_def rt_items_def rt_missing_def example_items_def decodeToPromise_def
      decode_story_json decode_comment_json decode_pollopt_json)
  apply (simp add: validator_defs reporter_def formatValidationError_def failure_line_def error_path_def
      List.map_filter_def jsToString_def example_stringify_def)
  done

lemma decodeToPromise_ids:
  "decodeToPromise rt (t_array ID_V) (JArr [JNum 1, JNum 2, JNum 3]) = Inr [1, 2, 3]"
  by (simp add: decodeToPromise_def decode_ids)

lemma decode_null: "decode ItemV JNull = Inl [ValidationError (Some JNull) [([], ''Item'')]]"
  by (simp add: validator_defs)

lemma example_fetches:
  "fetch_item rt_items 1 = Inr story_json" "fetch_item rt_items 2 = Inr comment_json"
  "fetch_item rt_items 3 = Inr pollopt_json"
  "fetch_item rt_missing 1 = Inr story_json" "fetch_item rt_missing 2 = Inr JNull"
  "fetch_item rt_missing 3 = Inr pollopt_json"
  "fetch_item rt_timeout 1 = Inr story_json" "fetch_item rt_timeout 2 = Inr comment_json"
  "fetch_item rt_timeout 3 = Inl (Error ''request timed out'')"
  by (simp_all add: rt_items_def rt_missing_def rt_timeout_def example_items_def)

lemma example_stringify_rt:
  "JSON_stringify rt_items = example_stringify" "JSON_stringify rt_missing = example_stringify"
  "JSON_stringify rt_timeout = example_stringify"
  by (simp_all add: rt_items_def rt_missing_def rt_timeout_def)

section \<open>The validators against the schema\<close>

text \<open>
  Failures add up: a combined validation fails when one of its parts does and carries the
  failures of all parts, in order. From this, each validator of the program follows its
  row of the table of declared fields.
\<close>

lemma isl_apV: "isl (apV f x) \<longleftrightarrow> isl f \<or> isl x"
  by (cases f; cases x) (simp_all add: apV_def)

lemma failures_apV: "failures_of (apV f x) = failures_of f @ failures_of x"
  by (cases f; cases x) (simp_all add: apV_def failures_of_def)

lemma apV_Inr_iff: "apV f x = Inr r \<longleftrightarrow> (\<exists>g a. f = Inr g \<and> x = Inr a \<and> r = g a)"
  by (cases f; cases x) (auto simp: apV_def)

lemma isl_success [simp]: "\<not> isl (success a)"
  by (simp add: success_def)

lemma failures_success [simp]: "failures_of (success a) = []"
  by (simp add: success_def failures_of_def)

lemma checks_string: "checks t_string Text"
  by (auto simp: checks_def t_string_def success_def failure_def failures_of_def
      split: option.splits json.splits)

lemma checks_number: "checks t_number Number"
  by (auto simp: checks_def t_number_def success_def failure_def failures_of_def
      split: option.splits json.splits)

lemma checks_ID: "checks ID_V Number"
  by (simp add: ID_V_def checks_number)

lemma checks_boolean: "checks t_boolean Boolean"
  by (auto simp: checks_def t_boolean_def success_def failure_def failures_of_def
      split: option.splits json.splits)

lemma checks_literal: "checks (t_literal v) (Literal v)"
  by (auto simp: checks_def t_literal_def success_def failure_def failures_of_def)

lemma checks_isl: "checks t k \<Longrightarrow> isl (validate t u c) \<longleftrightarrow> \<not> conforms k u"
  by (simp add: checks_def)

lemma checks_nonempty: "checks t k \<Longrightarrow> isl (validate t u c) \<Longrightarrow> failures_of (validate t u c) \<noteq> []"
  by (simp add: checks_def)

lemma checks_context:
  "checks t k \<Longrightarrow> e \<in> set (failures_of (validate t u c)) \<Longrightarrow> take (length c) (err_context e) = c"
  by (simp add: checks_def)

lemma validate_optional:
  "validate (optional t) u c =
     (case validate t u (appendContext c ''0'' t) of
        Inr x \<Rightarrow> Inr (Inl x)
      | Inl e1 \<Rightarrow>
          (if u = None then Inr (Inr ())
           else Inl (e1 @ [ValidationError u (appendContext c ''1'' t_undefined)])))"
  by (simp add: optional_def t_union_def t_undefined_def success_def failure_def
      split: sum.splits option.splits)

lemma checks_optional:
  assumes "checks t k"
  shows "checks (optional t) (Optional k)"
proof -
  have "isl (validate (optional t) u c) \<longleftrightarrow> \<not> conforms (Optional k) u" for u c
    using checks_isl [OF assms, of u "appendContext c ''0'' t"]
    by (cases "validate t u (appendContext c ''0'' t)") (simp_all add: validate_optional)
  moreover have "failures_of (validate (optional t) u c) \<noteq> []"
    if "isl (validate (optional t) u c)" for u c
    using that
    by (auto simp: validate_optional failures_of_def split: sum.splits if_splits)
  moreover have "take (length c) (err_context e) = c"
    if "e \<in> set (failures_of (validate (optional t) u c))" for u c e
  proof -
    let ?c0 = "appendContext c ''0'' t"
    from that have "e \<in> set (failures_of (validate t u ?c0)) \<or>
       e = ValidationError u (appendContext c ''1'' t_undefined)"
      by (auto simp: validate_optional failures_of_def split: sum.splits if_splits)
    then show ?thesis
    proof
      assume "e \<in> set (failures_of (validate t u ?c0))"
      with assms have "take (length ?c0) (err_context e) = ?c0"
        by (rule checks_context)
      then have "take (length c) (take (length ?c0) (err_context e)) = take (length c) ?c0"
        by simp
      then show ?thesis
        by (simp add: appendContext_def min_def)
    next
      assume "e = ValidationError u (appendContext c ''1'' t_undefined)"
      then show ?thesis by (simp add: appendContext_def)
    qed
  qed
  ultimately show ?thesis
    unfolding checks_def by blast
qed


lemma take_prefix:
  assumes "take (length (c @ c')) xs = c @ c'"
  shows "take (length c) xs = c"
proof -
  from assms have "take (length c) (take (length (c @ c')) xs) = take (length c) (c @ c')"
    by simp
  then show ?thesis
    by (simp add: min_def)
qed

lemma isl_sequenceV: "isl (sequenceV vs) \<longleftrightarrow> (\<exists>v\<in>set vs. isl v)"
  by (induction vs) (simp_all add: isl_apV)

lemma failures_sequenceV: "failures_of (sequenceV vs) = concat (map failures_of vs)"
  by (induction vs) (simp_all add: failures_apV)

lemma sequenceV_Inr_iff: "sequenceV vs = Inr xs \<longleftrightarrow> vs = map Inr xs"
proof (induction vs arbitrary: xs)
  case Nil
  show ?case by (auto simp: success_def)
next
  case (Cons v vs)
  show ?case
    by (cases xs) (auto simp: apV_Inr_iff success_def Cons)
qed

lemma validate_array:
  "validate (t_array item) (Some (JArr xs)) c =
     sequenceV (map (\<lambda>(i, x). validate item (Some x) (appendContext c (string_of_nat i) item))
                    (enumerate 0 xs))"
  by (simp add: t_array_def)

lemma validate_array_other:
  "(\<And>xs. u \<noteq> Some (JArr xs)) \<Longrightarrow> validate (t_array item) u c = Inl [ValidationError u c]"
  by (auto simp: t_array_def failure_def split: option.splits json.splits)

lemma checks_array:
  assumes "checks item Number"
  shows "checks (t_array item) Numbers"
proof -
  have elem: "conforms Number (Some x) \<longleftrightarrow> (case x of JNum _ \<Rightarrow> True | _ \<Rightarrow> False)" for x
    by simp
  have "isl (validate (t_array item) u c) \<longleftrightarrow> \<not> conforms Numbers u" for u c
  proof (cases "\<exists>xs. u = Some (JArr xs)")
    case True
    then obtain xs where u: "u = Some (JArr xs)" by auto
    have "snd ` set (enumerate 0 xs) = set xs"
      by (simp flip: set_map)
    then have "(\<exists>x\<in>set xs. \<not> conforms Number (Some x)) \<longleftrightarrow>
          (\<exists>x\<in>snd ` set (enumerate 0 xs). \<not> conforms Number (Some x))"
      by (simp only:)
    then have "(\<exists>p\<in>set (enumerate 0 xs). \<not> conforms Number (Some (snd p))) \<longleftrightarrow>
          (\<exists>x\<in>set xs. \<not> conforms Number (Some x))"
      by (simp only: bex_simps(7))
    then show ?thesis
      unfolding u validate_array isl_sequenceV
      by (simp add: checks_isl [OF assms] list_all_iff split_beta del: conforms.simps(2))
         (simp add: elem)
  next
    case False
    then have "validate (t_array item) u c = Inl [ValidationError u c]"
      by (intro validate_array_other) auto
    with False show ?thesis
      by (auto split: option.splits json.splits)
  qed
  moreover have "failures_of (validate (t_array item) u c) \<noteq> []"
    if "isl (validate (t_array item) u c)" for u c
  proof (cases "\<exists>xs. u = Some (JArr xs)")
    case True
    then obtain xs where u: "u = Some (JArr xs)" by auto
    from that obtain p where "p \<in> set (enumerate 0 xs)"
      "isl (validate item (Some (snd p)) (appendContext c (string_of_nat (fst p)) item))"
      unfolding u validate_array isl_sequenceV by (auto simp: split_beta)
    then show ?thesis
      unfolding u validate_array failures_sequenceV
      using checks_nonempty [OF assms] by (auto simp: split_beta)
  next
    case False
    then have "validate (t_array item) u c = Inl [ValidationError u c]"
      by (intro validate_array_other) auto
    then show ?thesis by (simp add: failures_of_def)
  qed
  moreover have "take (length c) (err_context e) = c"
    if "e \<in> set (failures_of (validate (t_array item) u c))" for u c e
  proof (cases "\<exists>xs. u = Some (JArr xs)")
    case True
    then obtain xs where u: "u = Some (JArr xs)" by auto
    from that obtain p where
      "e \<in> set (failures_of (validate item (Some (snd p)) (appendContext c (string_of_nat (fst p)) item)))"
      unfolding u validate_array failures_sequenceV by (auto simp: split_beta)
    from checks_context [OF assms this]
    show ?thesis
      unfolding appendContext_def by (rule take_prefix)
  next
    case False
    then have "validate (t_array item) u c = Inl [ValidationError u c]"
      by (intro validate_array_other) auto
    with that show ?thesis by (simp add: failures_of_def)
  qed
  ultimately show ?thesis
    unfolding checks_def by blast
qed


lemma prop_isl:
  "checks t k \<Longrightarrow> isl (validate_prop key t d c) \<longleftrightarrow> \<not> conforms k (map_of d key)"
  by (simp add: validate_prop_def checks_isl)

lemma prop_context:
  assumes "checks t k" "e \<in> set (failures_of (validate_prop key t d c))"
  shows "take (length c) (err_context e) = c" "key \<in> fst ` set (err_context e)"
proof -
  from assms have full: "take (length (c @ [(key, name t)])) (err_context e) = c @ [(key, name t)]"
    unfolding validate_prop_def appendContext_def by (rule checks_context)
  then show "take (length c) (err_context e) = c"
    by (rule take_prefix)
  from full have "(key, name t) \<in> set (take (length (c @ [(key, name t)])) (err_context e))"
    by simp
  then have "(key, name t) \<in> set (err_context e)"
    by (rule in_set_takeD)
  then show "key \<in> fst ` set (err_context e)"
    by force
qed

lemma prop_failure:
  assumes "checks t k" "\<not> conforms k (map_of d key)"
  shows "\<exists>e\<in>set (failures_of (validate_prop key t d c)). key \<in> fst ` set (err_context e)"
proof -
  from assms have "isl (validate_prop key t d c)"
    by (simp add: prop_isl)
  with assms(1) have "failures_of (validate_prop key t d c) \<noteq> []"
    unfolding validate_prop_def by (rule checks_nonempty)
  then obtain e where e: "e \<in> set (failures_of (validate_prop key t d c))"
    by (cases "failures_of (validate_prop key t d c)") auto
  with assms(1) have "key \<in> fst ` set (err_context e)"
    by (rule prop_context(2))
  with e show ?thesis by blast
qed

lemma follows_success: "follows (\<lambda>d c. success f) []"
  by (simp add: follows_def)

lemma follows_apV:
  assumes p: "follows p fs" and q: "follows q gs"
  shows "follows (\<lambda>d c. apV (p d c) (q d c)) (fs @ gs)"
  unfolding follows_def
proof (rule allI, rule allI, intro conjI)
  fix d c
  show "isl (apV (p d c) (q d c)) \<longleftrightarrow> (\<exists>(k, kind)\<in>set (fs @ gs). \<not> conforms kind (map_of d k))"
    using p q by (simp add: follows_def isl_apV bex_Un)
  show "\<forall>(k, kind)\<in>set (fs @ gs). \<not> conforms kind (map_of d k) \<longrightarrow>
           (\<exists>e\<in>set (failures_of (apV (p d c) (q d c))). k \<in> fst ` set (err_context e))"
    using p q by (simp add: follows_def failures_apV bex_Un ball_Un) blast
  show "\<forall>e\<in>set (failures_of (apV (p d c) (q d c))). take (length c) (err_context e) = c"
    using p q by (simp add: follows_def failures_apV ball_Un)
  show "isl (apV (p d c) (q d c)) \<longrightarrow> failures_of (apV (p d c) (q d c)) \<noteq> []"
    using p q by (auto simp: follows_def failures_apV isl_apV)
  show "\<forall>d'. (\<forall>(k, kind)\<in>set (fs @ gs). map_of d' k = map_of d k) \<longrightarrow>
           apV (p d' c) (q d' c) = apV (p d c) (q d c)"
  proof (intro allI impI)
    fix d'
    assume "\<forall>(k, kind)\<in>set (fs @ gs). map_of d' k = map_of d k"
    then have "\<forall>(k, kind)\<in>set fs. map_of d' k = map_of d k"
      "\<forall>(k, kind)\<in>set gs. map_of d' k = map_of d k"
      by auto
    with p q have "p d' c = p d c" "q d' c = q d c"
      unfolding follows_def by blast+
    then show "apV (p d' c) (q d' c) = apV (p d c) (q d c)" by simp
  qed
qed

lemma follows_prop:
  assumes "checks t k"
  shows "follows (validate_prop key t) [(key, k)]"
  unfolding follows_def
proof (rule allI, rule allI, intro conjI)
  fix d c
  show "isl (validate_prop key t d c) \<longleftrightarrow> (\<exists>(k', kind)\<in>set [(key, k)]. \<not> conforms kind (map_of d k'))"
    using assms by (simp add: prop_isl)
  show "\<forall>(k', kind)\<in>set [(key, k)]. \<not> conforms kind (map_of d k') \<longrightarrow>
           (\<exists>e\<in>set (failures_of (validate_prop key t d c)). k' \<in> fst ` set (err_context e))"
    using prop_failure [OF assms] by simp
  show "\<forall>e\<in>set (failures_of (validate_prop key t d c)). take (length c) (err_context e) = c"
    using prop_context(1) [OF assms] by blast
  show "isl (validate_prop key t d c) \<longrightarrow> failures_of (validate_prop key t d c) \<noteq> []"
    using checks_nonempty [OF assms] by (simp add: validate_prop_def)
  show "\<forall>d'. (\<forall>(k', kind)\<in>set [(key, k)]. map_of d' k' = map_of d k') \<longrightarrow>
           validate_prop key t d' c = validate_prop key t d c"
    by (simp add: validate_prop_def)
qed

lemma follows_field:
  assumes "follows p fs" "checks t k"
  shows "follows (\<lambda>d c. apV (p d c) (validate_prop key t d c)) (fs @ [(key, k)])"
  using follows_apV [OF assms(1) follows_prop [OF assms(2)]] .


lemma follows_cong: "follows p fs \<Longrightarrow> fs = gs \<Longrightarrow> follows p gs"
  by simp

lemmas checks_intros =
  checks_string checks_number checks_ID checks_boolean checks_literal checks_optional checks_array

lemma validate_type_obj: "validate (t_type props nm) (Some (JObj d)) c = props d c"
  by (simp add: t_type_def dictionary_def success_def)

lemma follows_ItemCommon:
  "follows (\<lambda>d c. validate ItemCommonV (Some (JObj d)) c) common_fields"
  unfolding ItemCommonV_def validate_type_obj
  apply (rule follows_cong)
   apply (rule follows_field follows_success checks_intros)+
  apply (simp add: common_fields_def)
  done

lemma follows_TopLevel:
  "follows (\<lambda>d c. validate TopLevelV (Some (JObj d)) c) top_level_fields"
  unfolding TopLevelV_def validate_type_obj
  apply (rule follows_cong)
   apply (rule follows_field follows_success checks_intros)+
  apply (simp add: top_level_fields_def)
  done

lemma follows_Story:
  "follows (\<lambda>d c. validate StoryV (Some (JObj d)) c) (declared_fields ''story'')"
  unfolding StoryV_def t_intersection3_def validate_type_obj Type.simps
  apply (rule follows_cong)
   apply (rule follows_field follows_success follows_ItemCommon follows_TopLevel follows_apV
      checks_intros)+
  apply (simp add: declared_fields_def)
  done


lemma follows_Job:
  "follows (\<lambda>d c. validate JobV (Some (JObj d)) c) (declared_fields ''job'')"
  unfolding JobV_def t_intersection3_def validate_type_obj Type.simps
  apply (rule follows_cong)
   apply (rule follows_field follows_success follows_ItemCommon follows_TopLevel follows_apV
      checks_intros)+
  apply (simp add: declared_fields_def)
  done

lemma follows_Poll:
  "follows (\<lambda>d c. validate PollV (Some (JObj d)) c) (declared_fields ''poll'')"
  unfolding PollV_def t_intersection3_def validate_type_obj Type.simps
  apply (rule follows_cong)
   apply (rule follows_field follows_success follows_ItemCommon follows_TopLevel follows_apV
      checks_intros)+
  apply (simp add: declared_fields_def)
  done

lemma follows_Comment:
  "follows (\<lambda>d c. validate CommentV (Some (JObj d)) c) (declared_fields ''comment'')"
  unfolding CommentV_def t_intersection2_def validate_type_obj Type.simps
  apply (rule follows_cong)
   apply (rule follows_field follows_success follows_ItemCommon follows_TopLevel follows_apV
      checks_intros)+
  apply (simp add: declared_fields_def)
  done

lemma follows_PollOpt:
  "follows (\<lambda>d c. validate PollOptV (Some (JObj d)) c) (declared_fields ''pollopt'')"
  unfolding PollOptV_def t_intersection1_def validate_type_obj Type.simps
  apply (rule follows_cong)
   apply (rule follows_field follows_success follows_ItemCommon follows_TopLevel follows_apV
      checks_intros)+
  apply (simp add: declared_fields_def)
  done

lemma tag_name:
  \<open>name (TagValue item_tags) = ''"comment" | "job" | "poll" | "pollopt" | "story"''\<close>
  by (simp add: TagValue_def item_tags_def)

lemma validate_ItemV_not_object:
  assumes "\<And>d. u \<noteq> Some (JObj d)"
  shows "validate ItemV u c = Inl [ValidationError u c]"
  using assms
  by (auto simp: ItemV_def t_taggedUnion_def dictionary_def failure_def
      split: option.splits json.splits)

lemma validate_ItemV_unknown:
  assumes "map_of d ''type'' \<notin> (\<lambda>tag. Some (JStr tag)) ` set item_tags"
  shows "validate ItemV (Some (JObj d)) c =
           Inl [ValidationError (map_of d ''type'') (c @ [(''type'', name (TagValue item_tags))])]"
  using assms
  by (auto simp: ItemV_def t_taggedUnion_def dictionary_def failure_def success_def
      appendContext_def TagValue_def item_tags_def split: option.splits json.splits)

lemma validate_ItemV_known:
  assumes "map_of d ''type'' = Some (JStr tag)"
  shows
    "tag = ''comment'' \<Longrightarrow>
       validate ItemV (Some (JObj d)) c = validate CommentV (Some (JObj d)) (c @ [(''0'', ''Comment'')])"
    "tag = ''job'' \<Longrightarrow>
       validate ItemV (Some (JObj d)) c = validate JobV (Some (JObj d)) (c @ [(''1'', ''Job'')])"
    "tag = ''poll'' \<Longrightarrow>
       validate ItemV (Some (JObj d)) c = validate PollV (Some (JObj d)) (c @ [(''2'', ''Poll'')])"
    "tag = ''pollopt'' \<Longrightarrow>
       validate ItemV (Some (JObj d)) c = validate PollOptV (Some (JObj d)) (c @ [(''3'', ''PollOpt'')])"
    "tag = ''story'' \<Longrightarrow>
       validate ItemV (Some (JObj d)) c = validate StoryV (Some (JObj d)) (c @ [(''4'', ''Story'')])"
  using assms
  by (simp_all add: ItemV_def t_taggedUnion_def dictionary_def success_def appendContext_def
      TagValue_def string_of_nat.simps digit_char_def
      CommentV_def JobV_def PollV_def PollOptV_def StoryV_def
      t_intersection1_def t_intersection2_def t_intersection3_def)


lemma ItemV_variant:
  assumes "tag \<in> set item_tags"
  obtains p i nm where
    "follows p (declared_fields tag)"
    "\<And>d c. map_of d ''type'' = Some (JStr tag) \<Longrightarrow>
        validate ItemV (Some (JObj d)) c = p d (c @ [(i, nm)])"
proof -
  from assms consider "tag = ''comment''" | "tag = ''job''" | "tag = ''poll''"
    | "tag = ''pollopt''" | "tag = ''story''"
    by (auto simp: item_tags_def)
  then show thesis
  proof cases
    case 1
    show thesis
      by (rule that [of "\<lambda>d c. validate CommentV (Some (JObj d)) c" "''0''" "''Comment''"])
         (simp_all add: 1 follows_Comment validate_ItemV_known)
  next
    case 2
    show thesis
      by (rule that [of "\<lambda>d c. validate JobV (Some (JObj d)) c" "''1''" "''Job''"])
         (simp_all add: 2 follows_Job validate_ItemV_known)
  next
    case 3
    show thesis
      by (rule that [of "\<lambda>d c. validate PollV (Some (JObj d)) c" "''2''" "''Poll''"])
         (simp_all add: 3 follows_Poll validate_ItemV_known)
  next
    case 4
    show thesis
      by (rule that [of "\<lambda>d c. validate PollOptV (Some (JObj d)) c" "''3''" "''PollOpt''"])
         (simp_all add: 4 follows_PollOpt validate_ItemV_known)
  next
    case 5
    show thesis
      by (rule that [of "\<lambda>d c. validate StoryV (Some (JObj d)) c" "''4''" "''Story''"])
         (simp_all add: 5 follows_Story validate_ItemV_known)
  qed
qed

lemma type_declared: "tag \<in> set item_tags \<Longrightarrow> (''type'', Literal tag) \<in> set (declared_fields tag)"
  by (auto simp: item_tags_def declared_fields_def)

lemma ItemV_known:
  assumes tag: "map_of d ''type'' = Some (JStr tag)" "tag \<in> set item_tags"
  shows ItemV_isl:
      "isl (validate ItemV (Some (JObj d)) c) \<longleftrightarrow>
         (\<exists>(k, kind)\<in>set (declared_fields tag). \<not> conforms kind (map_of d k))"
    and ItemV_field_failure:
      "(k, kind) \<in> set (declared_fields tag) \<Longrightarrow> \<not> conforms kind (map_of d k) \<Longrightarrow>
         \<exists>e\<in>set (failures_of (validate ItemV (Some (JObj d)) c)). k \<in> fst ` set (err_context e)"
    and ItemV_known_context:
      "e \<in> set (failures_of (validate ItemV (Some (JObj d)) c)) \<Longrightarrow>
         take (length c) (err_context e) = c"
    and ItemV_known_nonempty:
      "isl (validate ItemV (Some (JObj d)) c) \<Longrightarrow>
         failures_of (validate ItemV (Some (JObj d)) c) \<noteq> []"
    and ItemV_undeclared:
      "(\<forall>(k, kind)\<in>set (declared_fields tag). map_of d' k = map_of d k) \<Longrightarrow>
         validate ItemV (Some (JObj d')) c = validate ItemV (Some (JObj d)) c"
proof -
  obtain p i nm where p: "follows p (declared_fields tag)"
    and v: "\<And>d c. map_of d ''type'' = Some (JStr tag) \<Longrightarrow>
        validate ItemV (Some (JObj d)) c = p d (c @ [(i, nm)])"
    by (rule ItemV_variant [OF tag(2)]) (rule that, assumption+)
  note here = v [OF tag(1)]
  show "isl (validate ItemV (Some (JObj d)) c) \<longleftrightarrow>
         (\<exists>(k, kind)\<in>set (declared_fields tag). \<not> conforms kind (map_of d k))"
    using p unfolding here follows_def by blast
  show "\<exists>e\<in>set (failures_of (validate ItemV (Some (JObj d)) c)). k \<in> fst ` set (err_context e)"
    if "(k, kind) \<in> set (declared_fields tag)" "\<not> conforms kind (map_of d k)"
    using p that unfolding here follows_def by blast
  show "take (length c) (err_context e) = c"
    if "e \<in> set (failures_of (validate ItemV (Some (JObj d)) c))"
  proof -
    from p that have "take (length (c @ [(i, nm)])) (err_context e) = c @ [(i, nm)]"
      unfolding here follows_def by blast
    then show ?thesis by (rule take_prefix)
  qed
  show "failures_of (validate ItemV (Some (JObj d)) c) \<noteq> []"
    if "isl (validate ItemV (Some (JObj d)) c)"
    using p that unfolding here follows_def by blast
  show "validate ItemV (Some (JObj d')) c = validate ItemV (Some (JObj d)) c"
    if same: "\<forall>(k, kind)\<in>set (declared_fields tag). map_of d' k = map_of d k"
  proof -
    from same type_declared [OF tag(2)] have "map_of d' ''type'' = map_of d ''type''"
      by blast
    with tag(1) have "map_of d' ''type'' = Some (JStr tag)" by simp
    from v [OF this] have "validate ItemV (Some (JObj d')) c = p d' (c @ [(i, nm)])" .
    moreover from p same have "p d' (c @ [(i, nm)]) = p d (c @ [(i, nm)])"
      unfolding follows_def by blast
    ultimately show ?thesis
      by (simp add: here)
  qed
qed

lemma ItemV_failures:
  assumes "validate ItemV u c = Inl es"
  shows "es \<noteq> []" and "\<forall>e\<in>set es. take (length c) (err_context e) = c"
proof -
  have "es \<noteq> [] \<and> (\<forall>e\<in>set es. take (length c) (err_context e) = c)"
  proof (cases "\<exists>d. u = Some (JObj d)")
    case False
    then have "validate ItemV u c = Inl [ValidationError u c]"
      by (intro validate_ItemV_not_object) auto
    with assms show ?thesis by auto
  next
    case True
    then obtain d where u: "u = Some (JObj d)" by auto
    show ?thesis
    proof (cases "map_of d ''type'' \<in> (\<lambda>tag. Some (JStr tag)) ` set item_tags")
      case False
      from validate_ItemV_unknown [OF this, of c] assms show ?thesis
        unfolding u by auto
    next
      case True
      then obtain tag where tag: "map_of d ''type'' = Some (JStr tag)" "tag \<in> set item_tags"
        by auto
      from assms have "isl (validate ItemV (Some (JObj d)) c)"
        "failures_of (validate ItemV (Some (JObj d)) c) = es"
        unfolding u by (simp_all add: failures_of_def)
      with ItemV_known_nonempty [OF tag, of c] ItemV_known_context [OF tag, of _ c]
      show ?thesis by auto
    qed
  qed
  then show "es \<noteq> []" and "\<forall>e\<in>set es. take (length c) (err_context e) = c"
    by simp_all
qed

section \<open>What a decoded item holds, and how failures are reported\<close>

text \<open>
  A successful validation against \<open>ItemV\<close> had an object as input whose tag is the variant
  of the result and whose author and title are the strings the result carries. A failed
  one is reported with one line per failure.
\<close>

lemma ItemCommon_by:
  assumes "validate ItemCommonV (Some (JObj d)) c = Inr cm"
  shows "map_of d ''by'' = Some (JStr (item_by cm))"
  using assms
  by (auto simp: ItemCommonV_def validate_type_obj apV_Inr_iff success_def validate_prop_def
      t_string_def failure_def split: option.splits json.splits)

lemma TopLevel_title:
  assumes "validate TopLevelV (Some (JObj d)) c = Inr tp"
  shows "map_of d ''title'' = Some (JStr (item_title tp))"
  using assms
  by (auto simp: TopLevelV_def validate_type_obj apV_Inr_iff success_def validate_prop_def
      t_string_def failure_def split: option.splits json.splits)

lemma variant_results:
  "validate StoryV u c = Inr item \<Longrightarrow>
     \<exists>p cm tp. item = Story p cm tp \<and> validate ItemCommonV u c = Inr cm \<and> validate TopLevelV u c = Inr tp"
  "validate JobV u c = Inr item \<Longrightarrow>
     \<exists>p cm tp. item = Job p cm tp \<and> validate ItemCommonV u c = Inr cm \<and> validate TopLevelV u c = Inr tp"
  "validate PollV u c = Inr item \<Longrightarrow>
     \<exists>p cm tp. item = Poll p cm tp \<and> validate ItemCommonV u c = Inr cm \<and> validate TopLevelV u c = Inr tp"
  "validate CommentV u c = Inr item \<Longrightarrow>
     \<exists>p cm. item = Comment p cm \<and> validate ItemCommonV u c = Inr cm"
  "validate PollOptV u c = Inr item \<Longrightarrow> \<exists>p. item = PollOpt p"
  by (auto simp: StoryV_def JobV_def PollV_def CommentV_def PollOptV_def t_intersection3_def
      t_intersection2_def t_intersection1_def apV_Inr_iff success_def)

lemma ItemV_success:
  assumes "validate ItemV u c = Inr item"
  obtains d where "u = Some (JObj d)" "map_of d ''type'' = Some (JStr (item_type item))"
    "item_type item \<in> set item_tags"
    "case item of
       Story p cm tp \<Rightarrow> map_of d ''by'' = Some (JStr (item_by cm)) \<and>
                         map_of d ''title'' = Some (JStr (item_title tp))
     | Job p cm tp \<Rightarrow> map_of d ''by'' = Some (JStr (item_by cm)) \<and>
                       map_of d ''title'' = Some (JStr (item_title tp))
     | Poll p cm tp \<Rightarrow> map_of d ''by'' = Some (JStr (item_by cm)) \<and>
                        map_of d ''title'' = Some (JStr (item_title tp))
     | Comment p cm \<Rightarrow> map_of d ''by'' = Some (JStr (item_by cm))
     | PollOpt p \<Rightarrow> True"
proof -
  have "\<exists>d. u = Some (JObj d)"
  proof (rule ccontr)
    assume "\<not> (\<exists>d. u = Some (JObj d))"
    then have "validate ItemV u c = Inl [ValidationError u c]"
      by (intro validate_ItemV_not_object) auto
    with assms show False by simp
  qed
  then obtain d where u: "u = Some (JObj d)" by auto
  have "map_of d ''type'' \<in> (\<lambda>tag. Some (JStr tag)) ` set item_tags"
  proof (rule ccontr)
    assume "\<not> ?thesis"
    from validate_ItemV_unknown [OF this, of c] assms show False
      unfolding u by simp
  qed
  then obtain tag where tag: "map_of d ''type'' = Some (JStr tag)" "tag \<in> set item_tags"
    by auto
  from tag(2) consider "tag = ''comment''" | "tag = ''job''" | "tag = ''poll''"
    | "tag = ''pollopt''" | "tag = ''story''"
    by (auto simp: item_tags_def)
  then have "item_type item = tag \<and>
    (case item of
       Story p cm tp \<Rightarrow> map_of d ''by'' = Some (JStr (item_by cm)) \<and>
                         map_of d ''title'' = Some (JStr (item_title tp))
     | Job p cm tp \<Rightarrow> map_of d ''by'' = Some (JStr (item_by cm)) \<and>
                       map_of d ''title'' = Some (JStr (item_title tp))
     | Poll p cm tp \<Rightarrow> map_of d ''by'' = Some (JStr (item_by cm)) \<and>
                        map_of d ''title'' = Some (JStr (item_title tp))
     | Comment p cm \<Rightarrow> map_of d ''by'' = Some (JStr (item_by cm))
     | PollOpt p \<Rightarrow> True)"
  proof cases
    case 1
    with assms tag(1) have "validate CommentV (Some (JObj d)) (c @ [(''0'', ''Comment'')]) = Inr item"
      unfolding u by (simp add: validate_ItemV_known)
    from variant_results(4) [OF this] 1 show ?thesis
      by (auto simp: item_type_def dest: ItemCommon_by)
  next
    case 2
    with assms tag(1) have "validate JobV (Some (JObj d)) (c @ [(''1'', ''Job'')]) = Inr item"
      unfolding u by (simp add: validate_ItemV_known)
    from variant_results(2) [OF this] 2 show ?thesis
      by (auto simp: item_type_def dest: ItemCommon_by TopLevel_title)
  next
    case 3
    with assms tag(1) have "validate PollV (Some (JObj d)) (c @ [(''2'', ''Poll'')]) = Inr item"
      unfolding u by (simp add: validate_ItemV_known)
    from variant_results(3) [OF this] 3 show ?thesis
      by (auto simp: item_type_def dest: ItemCommon_by TopLevel_title)
  next
    case 4
    with assms tag(1) have "validate PollOptV (Some (JObj d)) (c @ [(''3'', ''PollOpt'')]) = Inr item"
      unfolding u by (simp add: validate_ItemV_known)
    from variant_results(5) [OF this] 4 show ?thesis
      by (auto simp: item_type_def)
  next
    case 5
    with assms tag(1) have "validate StoryV (Some (JObj d)) (c @ [(''4'', ''Story'')]) = Inr item"
      unfolding u by (simp add: validate_ItemV_known)
    from variant_results(1) [OF this] 5 show ?thesis
      by (auto simp: item_type_def dest: ItemCommon_by TopLevel_title)
  qed
  with u tag show thesis
    by (intro that [of d]) simp_all
qed

lemma reporter_lines:
  assumes "\<forall>e\<in>set es. err_context e \<noteq> []"
  shows "reporter s (Inl es) = map (failure_line s) es"
  using assms
  by (induction es) (simp_all add: reporter_def List.map_filter_def formatValidationError_def)

lemma context_nonempty:
  assumes "take (length c) (err_context e) = c" "c \<noteq> []"
  shows "err_context e \<noteq> []"
  using assms by auto

lemma array_element_failure:
  assumes "checks item Number" "i < length xs" "\<not> conforms Number (Some (xs ! i))"
  shows "\<exists>e\<in>set (failures_of (validate (t_array item) (Some (JArr xs)) c)).
           string_of_nat i \<in> fst ` set (err_context e)"
proof -
  let ?v = "validate item (Some (xs ! i)) (appendContext c (string_of_nat i) item)"
  from assms have "isl ?v"
    by (simp add: checks_isl)
  with assms(1) have "failures_of ?v \<noteq> []"
    by (rule checks_nonempty)
  then obtain e where e: "e \<in> set (failures_of ?v)"
    by (cases "failures_of ?v") auto
  from checks_context [OF assms(1) this]
  have "take (length (c @ [(string_of_nat i, name item)])) (err_context e)
          = c @ [(string_of_nat i, name item)]"
    by (simp add: appendContext_def)
  then have "(string_of_nat i, name item)
               \<in> set (take (length (c @ [(string_of_nat i, name item)])) (err_context e))"
    by simp
  then have "(string_of_nat i, name item) \<in> set (err_context e)"
    by (rule in_set_takeD)
  then have key: "string_of_nat i \<in> fst ` set (err_context e)"
    by force
  have "(i, xs ! i) \<in> set (enumerate 0 xs)"
    using assms(2) by (simp add: in_set_enumerate_eq)
  with e have "e \<in> set (failures_of (validate (t_array item) (Some (JArr xs)) c))"
    unfolding validate_array failures_sequenceV by force
  with key show ?thesis by blast
qed


lemma decodeToPromise_Inl:
  assumes "decodeToPromise rt validator input = Inl err"
  obtains es where "decode validator input = Inl es"
    "err = Error (join ''\<newline>'' (reporter (JSON_stringify rt) (decode validator input)))"
  using assms
  by (cases "decode validator input") (auto simp: decodeToPromise_def Let_def)

lemma decode_broken:
  "decode ItemV (JObj broken_fields) =
     Inl [ValidationError (Some (JNum 3)) [([], ''Item''), (''4'', ''Story''), (''by'', ''string'')],
          ValidationError None [([], ''Item''), (''4'', ''Story''), (''title'', ''string'')]]"
  by (simp add: broken_fields_def validator_defs)

lemma decodeToPromise_broken:
  "decodeToPromise rt_items ItemV (JObj broken_fields) =
     Inl (Error (''Expecting string at 4.by but instead got: [value].''
                 @ ''\<newline>'' @ ''Expecting string at 4.title but instead got: undefined.''))"
  by (simp add: decodeToPromise_def decode_broken reporter_def List.map_filter_def
      formatValidationError_def failure_line_def error_path_def jsToString_def rt_items_def
      example_stringify_def)




text \<open>
  \<open>decodeToPromise\<close> and \<open>fetchItem\<close> by cases: a request fails when the fetch rejects or
  when the body does not decode, and in no other case.
\<close>

lemma decodeToPromise_cases:
  "decodeToPromise rt validator input =
     (case decode validator input of
        Inl es \<Rightarrow> Inl (Error (join ''\<newline>'' (reporter (JSON_stringify rt) (decode validator input))))
      | Inr v \<Rightarrow> Inr v)"
  by (simp add: decodeToPromise_def Let_def split: sum.splits)

lemma fetchItem_cases:
  "fetchItem rt i =
     (case fetch_item rt i of
        Inl e \<Rightarrow> Inl e
      | Inr obj \<Rightarrow>
          (case decode ItemV obj of
             Inl es \<Rightarrow> Inl (Error (join ''\<newline>'' (reporter (JSON_stringify rt) (decode ItemV obj))))
           | Inr item \<Rightarrow> Inr item))"
  by (simp add: fetchItem_def decodeToPromise_cases split: sum.splits)

lemma fetchItem_isl:
  "isl (fetchItem rt i) \<longleftrightarrow>
     (\<exists>e. fetch_item rt i = Inl e) \<or>
     (\<exists>obj es. fetch_item rt i = Inr obj \<and> decode ItemV obj = Inl es)"
proof (cases "fetch_item rt i")
  case (Inl e)
  then show ?thesis by (simp add: fetchItem_cases)
next
  case (Inr obj)
  then show ?thesis
    by (cases "decode ItemV obj") (simp_all add: fetchItem_cases)
qed

section \<open>The decoder\<close>

text \<open>
  C4, as amended. For every input the Item decoder accepts, the \<^verbatim>\<open>by\<close> field of the result
  (story, job, poll, comment) and its \<^verbatim>\<open>title\<close> field (story, job, poll) are the strings the
  input holds under these keys, so an input where one of them is missing or not a string
  is rejected. The strings may be empty.
\<close>

theorem decoded_by_and_title:
  assumes "decode ItemV input = Inr item"
  shows "\<exists>d. input = JObj d \<and>
     (case item of
        Story p cm tp \<Rightarrow> map_of d ''by'' = Some (JStr (item_by cm)) \<and>
                          map_of d ''title'' = Some (JStr (item_title tp))
      | Job p cm tp \<Rightarrow> map_of d ''by'' = Some (JStr (item_by cm)) \<and>
                        map_of d ''title'' = Some (JStr (item_title tp))
      | Poll p cm tp \<Rightarrow> map_of d ''by'' = Some (JStr (item_by cm)) \<and>
                         map_of d ''title'' = Some (JStr (item_title tp))
      | Comment p cm \<Rightarrow> map_of d ''by'' = Some (JStr (item_by cm))
      | PollOpt p \<Rightarrow> True)"
proof -
  from assms have "validate ItemV (Some input) (getDefaultContext ItemV) = Inr item"
    by (simp add: decode_def)
  then show ?thesis
    by (rule ItemV_success) auto
qed

theorem decoded_by_and_title_witness:
  "map_of story_fields ''by'' = Some (JStr ''pg'') \<and>
   map_of story_fields ''title'' = Some (JStr ''Y Combinator'')"
  using decoded_by_and_title [OF decode_story_json]
  by (simp add: story_json_def story_item_def)

text \<open>
  C4 as stated fails: a story whose \<^verbatim>\<open>by\<close> and \<^verbatim>\<open>title\<close> are the empty string is accepted, and
  the decoded item carries the two empty strings.
\<close>

theorem empty_by_and_title_counterexample:
  "decode ItemV anonymous_json =
     Inr (Story (StoryProps 0 (Inr ()) (Inr ()))
            (ItemCommon [] 1 1160418111 (Inr ()) (Inr ()) (Inr ())) (TopLevel 57 []))"
  by (simp add: anonymous_json_def validator_defs)

text \<open>
  C5. When the \<^verbatim>\<open>type\<close> property of the input object is absent, not a string, or not one of
  the five tags, decoding fails with exactly one failure: its path is the key \<^verbatim>\<open>type\<close>, it
  expects the five literals, and it carries the value found. No other property of the
  object is looked at, so no variant is tried. The message of the rejection is the one
  line of this failure, which names the path \<^verbatim>\<open>type\<close>.
\<close>

theorem unknown_type_single_failure:
  assumes "map_of d ''type'' \<notin> (\<lambda>tag. Some (JStr tag)) ` set item_tags"
  shows \<open>decode ItemV (JObj d) =
           Inl [ValidationError (map_of d ''type'')
                  [([], ''Item''),
                   (''type'', ''"comment" | "job" | "poll" | "pollopt" | "story"'')]] \<and>
         decodeToPromise rt ItemV (JObj d) =
           Inl (Error (''Expecting "comment" | "job" | "poll" | "pollopt" | "story" at type''
                       @ '' but instead got: ''
                       @ jsToString (JSON_stringify rt) (map_of d ''type'') @ ''.''))\<close>
proof -
  have dec: \<open>decode ItemV (JObj d) =
           Inl [ValidationError (map_of d ''type'')
                  [([], ''Item''),
                   (''type'', ''"comment" | "job" | "poll" | "pollopt" | "story"'')]]\<close>
    using validate_ItemV_unknown [OF assms, of "getDefaultContext ItemV"]
    by (simp add: decode_def tag_name) (simp add: getDefaultContext_def ItemV_def t_taggedUnion_def)
  then show ?thesis
    by (simp add: decodeToPromise_def reporter_def List.map_filter_def formatValidationError_def failure_line_def
        error_path_def)
qed

theorem unknown_type_single_failure_witness:
  \<open>decodeToPromise rt_items ItemV (JObj [(''type'', JStr ''storyx''), (''by'', JNum 1)]) =
     Inl (Error (''Expecting "comment" | "job" | "poll" | "pollopt" | "story" at type''
                 @ '' but instead got: [value].'')) \<and>
   decodeToPromise rt_items ItemV (JObj [(''by'', JStr ''pg'')]) =
     Inl (Error (''Expecting "comment" | "job" | "poll" | "pollopt" | "story" at type''
                 @ '' but instead got: undefined.'')) \<and>
   decodeToPromise rt_items ItemV (JObj [(''type'', JNull)]) =
     Inl (Error (''Expecting "comment" | "job" | "poll" | "pollopt" | "story" at type''
                 @ '' but instead got: null.''))\<close>
proof -
  have a: "map_of [(''type'', JStr ''storyx''), (''by'', JNum 1)] ''type''
             \<notin> (\<lambda>tag. Some (JStr tag)) ` set item_tags"
    and b: "map_of [(''by'', JStr ''pg'')] ''type'' \<notin> (\<lambda>tag. Some (JStr tag)) ` set item_tags"
    and c: "map_of [(''type'', JNull)] ''type'' \<notin> (\<lambda>tag. Some (JStr tag)) ` set item_tags"
    by (auto simp: item_tags_def)
  from unknown_type_single_failure [OF a, of rt_items]
       unknown_type_single_failure [OF b, of rt_items]
       unknown_type_single_failure [OF c, of rt_items]
  show ?thesis
    by (simp add: jsToString_def rt_items_def example_stringify_def)
qed





text \<open>
  C8. A failed decoding rejects and returns no value: \<open>decodeToPromise\<close> rejects exactly when
  the decoder fails and fulfils with the decoded value otherwise. When the decoder
  fails, the list of failures is not empty, every failure has a context (its path and
  the type expected at its end) and the value found, and the rejection's message is one
  line per failure, in order, joined with newlines. All failing fields are reported, not
  the first one only: for an item with a known tag, every declared field whose value
  does not conform has a failure with the field's key on its path, and for the list of
  identifiers every element that is not a number has a failure with its index on its
  path.
\<close>

theorem decode_failure_report:
  "(decode ItemV input = Inl es \<longrightarrow>
      decodeToPromise rt ItemV input
        = Inl (Error (join ''\<newline>'' (map (failure_line (JSON_stringify rt)) es))) \<and>
      es \<noteq> [] \<and> (\<forall>e\<in>set es. err_context e \<noteq> []) \<and>
      (\<forall>d tag. input = JObj d \<and> map_of d ''type'' = Some (JStr tag) \<and> tag \<in> set item_tags \<longrightarrow>
         (\<forall>(k, kind)\<in>set (declared_fields tag).
            \<not> conforms kind (map_of d k) \<longrightarrow>
            (\<exists>e\<in>set es. k \<in> fst ` set (err_context e))))) \<and>
   (decode (t_array ID_V) input = Inl es' \<longrightarrow>
      decodeToPromise rt (t_array ID_V) input
        = Inl (Error (join ''\<newline>'' (map (failure_line (JSON_stringify rt)) es'))) \<and>
      es' \<noteq> [] \<and> (\<forall>e\<in>set es'. err_context e \<noteq> []) \<and>
      (\<forall>xs i. input = JArr xs \<and> i < length xs \<and> \<not> conforms Number (Some (xs ! i)) \<longrightarrow>
         (\<exists>e\<in>set es'. string_of_nat i \<in> fst ` set (err_context e)))) \<and>
   (isl (decodeToPromise rt ItemV input) \<longleftrightarrow> isl (decode ItemV input)) \<and>
   (isl (decodeToPromise rt (t_array ID_V) input) \<longleftrightarrow> isl (decode (t_array ID_V) input)) \<and>
   (decode ItemV input = Inr item \<longrightarrow> decodeToPromise rt ItemV input = Inr item) \<and>
   (decode (t_array ID_V) input = Inr ids \<longrightarrow> decodeToPromise rt (t_array ID_V) input = Inr ids)"
proof (intro conjI impI)
  let ?c = "getDefaultContext ItemV"
  assume es: "decode ItemV input = Inl es"
  then have v: "validate ItemV (Some input) ?c = Inl es"
    by (simp add: decode_def)
  have c: "?c \<noteq> []"
    by (simp add: getDefaultContext_def)
  from ItemV_failures [OF v] have ne: "es \<noteq> []"
    and ctx: "\<forall>e\<in>set es. take (length ?c) (err_context e) = ?c"
    by simp_all
  from ne show "es \<noteq> []" .
  from ctx c have ctx': "\<forall>e\<in>set es. err_context e \<noteq> []"
    by (metis context_nonempty)
  then show "\<forall>e\<in>set es. err_context e \<noteq> []" .
  show "decodeToPromise rt ItemV input
          = Inl (Error (join ''\<newline>'' (map (failure_line (JSON_stringify rt)) es)))"
    by (simp add: decodeToPromise_cases es reporter_lines [OF ctx'])
  have fields: "\<exists>e\<in>set es. k \<in> fst ` set (err_context e)"
    if "input = JObj d" "map_of d ''type'' = Some (JStr tag)" "tag \<in> set item_tags"
      "(k, kind) \<in> set (declared_fields tag)" "\<not> conforms kind (map_of d k)"
    for d tag k kind
  proof -
    from v that(1) have "failures_of (validate ItemV (Some (JObj d)) ?c) = es"
      by (simp add: failures_of_def)
    with ItemV_field_failure [OF that(2,3,4,5), of ?c] show ?thesis
      by simp
  qed
  then show "\<forall>d tag. input = JObj d \<and> map_of d ''type'' = Some (JStr tag) \<and> tag \<in> set item_tags \<longrightarrow>
         (\<forall>(k, kind)\<in>set (declared_fields tag).
            \<not> conforms kind (map_of d k) \<longrightarrow>
            (\<exists>e\<in>set es. k \<in> fst ` set (err_context e)))"
    by blast
next
  let ?t = "t_array ID_V"
  let ?c = "getDefaultContext ?t"
  have chk: "checks ?t Numbers"
    by (intro checks_array checks_ID)
  assume es: "decode ?t input = Inl es'"
  then have v: "validate ?t (Some input) ?c = Inl es'"
    by (simp add: decode_def)
  then have fs: "failures_of (validate ?t (Some input) ?c) = es'" "isl (validate ?t (Some input) ?c)"
    by (simp_all add: failures_of_def)
  have c: "?c \<noteq> []"
    by (simp add: getDefaultContext_def)
  from checks_nonempty [OF chk fs(2)] fs(1) show "es' \<noteq> []"
    by simp
  have ctx: "\<forall>e\<in>set es'. take (length ?c) (err_context e) = ?c"
    using checks_context [OF chk, of _ "Some input" ?c] fs(1) by simp
  from ctx c have ctx': "\<forall>e\<in>set es'. err_context e \<noteq> []"
    by (metis context_nonempty)
  then show "\<forall>e\<in>set es'. err_context e \<noteq> []" .
  show "decodeToPromise rt ?t input
          = Inl (Error (join ''\<newline>'' (map (failure_line (JSON_stringify rt)) es')))"
    by (simp add: decodeToPromise_cases es reporter_lines [OF ctx'])
  have elems: "\<exists>e\<in>set es'. string_of_nat i \<in> fst ` set (err_context e)"
    if "input = JArr xs" "i < length xs" "\<not> conforms Number (Some (xs ! i))" for xs i
    using array_element_failure [OF checks_ID that(2,3), of ?c] fs(1) that(1) by simp
  then show "\<forall>xs i. input = JArr xs \<and> i < length xs \<and> \<not> conforms Number (Some (xs ! i)) \<longrightarrow>
         (\<exists>e\<in>set es'. string_of_nat i \<in> fst ` set (err_context e))"
    by blast
next
  show "isl (decodeToPromise rt ItemV input) \<longleftrightarrow> isl (decode ItemV input)"
    by (cases "decode ItemV input") (simp_all add: decodeToPromise_cases)
  show "isl (decodeToPromise rt (t_array ID_V) input) \<longleftrightarrow> isl (decode (t_array ID_V) input)"
    by (cases "decode (t_array ID_V) input") (simp_all add: decodeToPromise_cases)
next
  assume "decode ItemV input = Inr item"
  then show "decodeToPromise rt ItemV input = Inr item"
    by (simp add: decodeToPromise_cases)
next
  assume "decode (t_array ID_V) input = Inr ids"
  then show "decodeToPromise rt (t_array ID_V) input = Inr ids"
    by (simp add: decodeToPromise_cases)
qed

theorem decode_failure_report_witness:
  "decodeToPromise rt_items ItemV (JObj broken_fields) =
     Inl (Error (''Expecting string at 4.by but instead got: [value].''
                 @ ''\<newline>'' @ ''Expecting string at 4.title but instead got: undefined.'')) \<and>
   isl (decodeToPromise rt_items ItemV (JObj broken_fields)) \<and>
   decodeToPromise rt_items (t_array ID_V) (JArr [JNum 1, JNull]) =
     Inl (Error ''Expecting number at 1 but instead got: null.'') \<and>
   decodeToPromise rt_items ItemV story_json = Inr story_item"
proof -
  have arr: "decode (t_array ID_V) (JArr [JNum 1, JNull])
               = Inl [ValidationError (Some JNull) [([], ''Array<number>''), (''1'', ''number'')]]"
    by (simp add: validator_defs)
  from decode_failure_report [where input = "JObj broken_fields" and rt = rt_items,
              THEN conjunct1, THEN mp, OF decode_broken]
       decode_failure_report [where input = "JArr [JNum 1, JNull]" and rt = rt_items,
              THEN conjunct2, THEN conjunct1, THEN mp, OF arr]
       decode_failure_report [where input = story_json and rt = rt_items and item = story_item]
  show ?thesis
    by (simp add: decode_story_json failure_line_def error_path_def jsToString_def rt_items_def
        example_stringify_def)
qed

section \<open>The presenter's output\<close>

text \<open>
  C2. For an item of each of the five variants, \<open>formatItem\<close> returns the line of the
  format table: the title in double quotes and the author for a story, the title for a
  job, the title in double quotes and the number of parts in decimal for a poll, the text
  for a poll option, the author and the excerpt for a comment. Every item is of one of
  the five variants, so no item is left without a line.
\<close>

theorem formatItem_literal_formats:
  \<open>formatItem (Story sp c t) = ''"'' @ item_title t @ ''" submitted by '' @ item_by c \<and>
   formatItem (Job jp c t) = ''job posting: '' @ item_title t \<and>
   formatItem (Poll pp c t) =
     ''poll: "'' @ item_title t @ ''" - choose one of '' @ string_of_nat (length (poll_parts pp))
     @ '' options'' \<and>
   formatItem (PollOpt op) = ''poll option: '' @ pollopt_text op \<and>
   formatItem (Comment cp c) =
     item_by c @ '' commented: ''
     @ (if length (comment_text cp) \<le> 60 then comment_text cp
        else take 60 (comment_text cp) @ ''...'') \<and>
   (\<exists>sp c t jp pp op cp.
      item = Story sp c t \<or> item = Job jp c t \<or> item = Poll pp c t \<or> item = PollOpt op
      \<or> item = Comment cp c)\<close>
proof -
  have "\<exists>sp c t jp pp op cp.
      item = Story sp c t \<or> item = Job jp c t \<or> item = Poll pp c t \<or> item = PollOpt op
      \<or> item = Comment cp c"
    by (cases item) auto
  then show ?thesis
    by (simp add: formatItem_def slice_from_0)
qed

theorem formatItem_literal_formats_witness:
  \<open>formatItem (Story (StoryProps 3 (Inr ()) (Inl ''http://x.y''))
       (ItemCommon ''pg'' 1 2 (Inr ()) (Inr ()) (Inr ())) (TopLevel 5 ''Hello''))
     = ''"Hello" submitted by pg'' \<and>
   formatItem (Job (JobProps (Inr ()) (Inr ()))
       (ItemCommon ''pg'' 1 2 (Inr ()) (Inr ()) (Inr ())) (TopLevel 5 ''Hello''))
     = ''job posting: Hello'' \<and>
   formatItem (Poll (PollProps 0 [4, 5, 6, 7, 8, 9, 10, 11, 12, 13, 14, 15])
       (ItemCommon ''pg'' 1 2 (Inr ()) (Inr ()) (Inr ())) (TopLevel 5 ''Hello''))
     = ''poll: "Hello" - choose one of 12 options'' \<and>
   formatItem (PollOpt (PollOptProps 1 2 ''Yes'')) = ''poll option: Yes'' \<and>
   formatItem (Comment (CommentProps 1 ''I agree'')
       (ItemCommon ''pg'' 1 2 (Inr ()) (Inr ()) (Inr ())))
     = ''pg commented: I agree''\<close>
  using formatItem_literal_formats
    [of "StoryProps 3 (Inr ()) (Inl ''http://x.y'')"
        "ItemCommon ''pg'' 1 2 (Inr ()) (Inr ()) (Inr ())" "TopLevel 5 ''Hello''"
        "JobProps (Inr ()) (Inr ())"
        "PollProps 0 [4, 5, 6, 7, 8, 9, 10, 11, 12, 13, 14, 15]"
        "PollOptProps 1 2 ''Yes''" "CommentProps 1 ''I agree''"]
  by (simp add: string_of_nat.simps digit_char_def)

text \<open>
  C3. The excerpt of a comment is its text, unchanged, when the text has at most 60
  characters (60 included), and the first 60 characters followed by three dots when it
  has 61 or more.
\<close>

theorem comment_excerpt:
  "(length (comment_text p) \<le> 60 \<longrightarrow>
      formatItem (Comment p c) = item_by c @ '' commented: '' @ comment_text p) \<and>
   (61 \<le> length (comment_text p) \<longrightarrow>
      formatItem (Comment p c)
        = item_by c @ '' commented: '' @ take 60 (comment_text p) @ ''...'')"
  by (simp add: formatItem_def slice_from_0)

theorem comment_excerpt_witness:
  "formatItem (Comment (CommentProps 7 (replicate 60 (CHR ''x'')))
       (ItemCommon ''pg'' 8 9 (Inr ()) (Inr ()) (Inr ())))
     = ''pg commented: '' @ replicate 60 (CHR ''x'') \<and>
   formatItem (Comment (CommentProps 7 (replicate 61 (CHR ''x'')))
       (ItemCommon ''pg'' 8 9 (Inr ()) (Inr ()) (Inr ())))
     = ''pg commented: '' @ replicate 60 (CHR ''x'') @ ''...''"
  using comment_excerpt [of "CommentProps 7 (replicate 60 (CHR ''x''))"
                            "ItemCommon ''pg'' 8 9 (Inr ()) (Inr ()) (Inr ())"]
        comment_excerpt [of "CommentProps 7 (replicate 61 (CHR ''x''))"
                            "ItemCommon ''pg'' 8 9 (Inr ()) (Inr ()) (Inr ())"]
  by simp

section \<open>The batch fetch\<close>

text \<open>
  C9. Once the identifier list has been fetched and decoded, and whatever the order in
  which the item requests complete: when for every identifier of the batch the fetch
  succeeds and the body decodes, the result holds the decoded items in the order of the
  identifiers; when for one of them the fetch rejects or the body does not decode, the
  whole batch rejects, with the reason of a rejected fetch or the report of a failed
  decoding, and no item is returned.
\<close>

theorem fetchTopStories_order_and_failure:
  assumes "fetch_topstories rt = Inr body"
    and "decodeToPromise rt (t_array ID_V) body = Inr ids"
    and "set sched = {..<length (slice ids 0 count)}"
  shows "((\<forall>i\<in>set (slice ids 0 count).
             \<exists>obj item. fetch_item rt i = Inr obj \<and> decode ItemV obj = Inr item) \<longrightarrow>
            fetchTopStories rt sched count
              = Some (Inr (map (\<lambda>i. projr (decode ItemV (projr (fetch_item rt i))))
                               (slice ids 0 count)))) \<and>
         ((\<exists>i\<in>set (slice ids 0 count).
             (\<exists>e. fetch_item rt i = Inl e) \<or>
             (\<exists>obj es. fetch_item rt i = Inr obj \<and> decode ItemV obj = Inl es)) \<longrightarrow>
            (\<exists>i\<in>set (slice ids 0 count).
               (\<exists>e. fetch_item rt i = Inl e \<and>
                  fetchTopStories rt sched count = Some (Inl e)) \<or>
               (\<exists>obj es. fetch_item rt i = Inr obj \<and> decode ItemV obj = Inl es \<and>
                  fetchTopStories rt sched count
                    = Some (Inl (Error (join ''\<newline>''
                        (map (failure_line (JSON_stringify rt)) es))))))) \<and>
         ((\<forall>i\<in>set (slice ids 0 count). \<not> isl (fetchItem rt i)) \<longrightarrow>
            fetchTopStories rt sched count
              = Some (Inr (map (\<lambda>i. projr (fetchItem rt i)) (slice ids 0 count)))) \<and>
         ((\<exists>i\<in>set (slice ids 0 count). isl (fetchItem rt i)) \<longrightarrow>
            (\<exists>i\<in>set (slice ids 0 count).
               isl (fetchItem rt i) \<and>
               fetchTopStories rt sched count = Some (Inl (projl (fetchItem rt i)))))"
proof -
  let ?batch = "slice ids 0 count"
  let ?ps = "map (\<lambda>i. fetchItem rt i) ?batch"
  have run: "fetchTopStories rt sched count = Promise_all sched ?ps"
    using assms(1,2) by (simp add: fetchTopStories_def)
  have sched: "set sched = {..<length ?ps}"
    using assms(3) by simp
  have ok: "Promise_all sched ?ps = Some (Inr (map (\<lambda>i. projr (fetchItem rt i)) ?batch))"
    if "\<forall>i\<in>set ?batch. \<not> isl (fetchItem rt i)"
  proof -
    from that have "\<forall>p\<in>set ?ps. \<not> isl p" by simp
    from Promise_all_fulfilled [OF sched this] show ?thesis
      by (simp add: comp_def)
  qed
  have bad: "\<exists>i\<in>set ?batch. isl (fetchItem rt i) \<and>
               Promise_all sched ?ps = Some (Inl (projl (fetchItem rt i)))"
    if "\<exists>i\<in>set ?batch. isl (fetchItem rt i)"
  proof -
    from that have "\<exists>p\<in>set ?ps. isl p" by simp
    from Promise_all_rejected [OF sched this]
    obtain k where k: "k < length ?batch" "isl (?ps ! k)"
      "Promise_all sched ?ps = Some (Inl (projl (?ps ! k)))"
      by auto
    then have "?batch ! k \<in> set ?batch" by simp
    with k show ?thesis
      by (intro bexI [of _ "?batch ! k"]) simp_all
  qed
  have ok': "Promise_all sched ?ps
               = Some (Inr (map (\<lambda>i. projr (decode ItemV (projr (fetch_item rt i)))) ?batch))"
    if all: "\<forall>i\<in>set ?batch. \<exists>obj item. fetch_item rt i = Inr obj \<and> decode ItemV obj = Inr item"
  proof -
    have each: "fetchItem rt i = Inr (projr (decode ItemV (projr (fetch_item rt i))))"
      if "i \<in> set ?batch" for i
      using all that by (auto simp: fetchItem_cases)
    then have "\<forall>i\<in>set ?batch. \<not> isl (fetchItem rt i)" by simp
    from ok [OF this] each show ?thesis
      by simp
  qed
  have bad': "\<exists>i\<in>set ?batch.
               (\<exists>e. fetch_item rt i = Inl e \<and> Promise_all sched ?ps = Some (Inl e)) \<or>
               (\<exists>obj es. fetch_item rt i = Inr obj \<and> decode ItemV obj = Inl es \<and>
                  Promise_all sched ?ps
                    = Some (Inl (Error (join ''\<newline>''
                        (map (failure_line (JSON_stringify rt)) es)))))"
    if some: "\<exists>i\<in>set ?batch.
             (\<exists>e. fetch_item rt i = Inl e) \<or>
             (\<exists>obj es. fetch_item rt i = Inr obj \<and> decode ItemV obj = Inl es)"
  proof -
    from some have "\<exists>i\<in>set ?batch. isl (fetchItem rt i)"
      by (simp only: fetchItem_isl)
    from bad [OF this] obtain i where i: "i \<in> set ?batch" "isl (fetchItem rt i)"
      "Promise_all sched ?ps = Some (Inl (projl (fetchItem rt i)))"
      by blast
    show ?thesis
    proof (cases "fetch_item rt i")
      case (Inl e)
      then have "fetchItem rt i = Inl e" by (simp add: fetchItem_cases)
      with i Inl show ?thesis
        by (intro bexI [of _ i]) simp_all
    next
      case (Inr obj)
      with i(2) obtain es where es: "decode ItemV obj = Inl es"
        by (cases "decode ItemV obj") (auto simp: fetchItem_cases)
      then have v: "validate ItemV (Some obj) (getDefaultContext ItemV) = Inl es"
        by (simp add: decode_def)
      have "getDefaultContext ItemV \<noteq> []"
        by (simp add: getDefaultContext_def)
      with ItemV_failures(2) [OF v] have "\<forall>e\<in>set es. err_context e \<noteq> []"
        by (metis context_nonempty)
      then have "reporter (JSON_stringify rt) (decode ItemV obj)
                   = map (failure_line (JSON_stringify rt)) es"
        by (simp add: es reporter_lines)
      with Inr es have "fetchItem rt i
          = Inl (Error (join ''\<newline>'' (map (failure_line (JSON_stringify rt)) es)))"
        by (simp add: fetchItem_cases)
      with i Inr es show ?thesis
        by (intro bexI [of _ i]) auto
    qed
  qed
  from ok bad ok' bad' show ?thesis
    unfolding run by blast
qed

theorem fetchTopStories_order_and_failure_witness:
  "fetchTopStories rt_items [2, 0, 1] 15 = Some (Inr [story_item, comment_item, pollopt_item]) \<and>
   fetchTopStories rt_items [0, 1, 2] 15 = Some (Inr [story_item, comment_item, pollopt_item]) \<and>
   fetchTopStories rt_missing [2, 0, 1] 15
     = Some (Inl (Error ''Expecting Item but instead got: null.'')) \<and>
   fetchTopStories rt_timeout [2, 0, 1] 15 = Some (Inl (Error ''request timed out''))"
proof -
  have top: "fetch_topstories rt_items = Inr (JArr [JNum 1, JNum 2, JNum 3])"
            "fetch_topstories rt_missing = Inr (JArr [JNum 1, JNum 2, JNum 3])"
            "fetch_topstories rt_timeout = Inr (JArr [JNum 1, JNum 2, JNum 3])"
    by (simp_all add: rt_items_def rt_missing_def rt_timeout_def)
  have batch: "slice [1, 2, 3 :: rat] 0 15 = [1, 2, 3]"
    by (simp add: slice_from_0)
  have a: "set [2, 0, 1 :: nat] = {..<length (slice [1, 2, 3 :: rat] 0 15)}"
    and b: "set [0, 1, 2 :: nat] = {..<length (slice [1, 2, 3 :: rat] 0 15)}"
    unfolding batch by auto
  note decodes = decode_story_json decode_comment_json decode_pollopt_json decode_null
  from fetchTopStories_order_and_failure [OF top(1) decodeToPromise_ids a]
       fetchTopStories_order_and_failure [OF top(1) decodeToPromise_ids b]
       fetchTopStories_order_and_failure [OF top(2) decodeToPromise_ids a]
       fetchTopStories_order_and_failure [OF top(3) decodeToPromise_ids a]
  show ?thesis
    unfolding batch
    by (simp add: example_fetches example_stringify_rt decodes failure_line_def error_path_def
        jsToString_def example_stringify_def)
qed

text \<open>
  C10. The batch is \<^verbatim>\<open>ids.slice(0, count)\<close>: the first \<open>min(count, length ids)\<close> identifiers for
  a count of 0 or more (none for 0), and all but the last \<open>|count|\<close> identifiers for a
  negative count. One request is made per identifier of the batch, and when all succeed
  the result holds exactly their items.
\<close>

theorem fetchTopStories_batch:
  assumes "fetch_topstories rt = Inr body"
    and "decodeToPromise rt (t_array ID_V) body = Inr ids"
    and "batch = (if 0 \<le> count then take (nat count) ids
                  else take (length ids - nat (- count)) ids)"
  shows "fetchTopStories rt sched count = Promise_all sched (map (\<lambda>i. fetchItem rt i) batch) \<and>
         length batch = (if 0 \<le> count then min (nat count) (length ids)
                         else length ids - nat (- count)) \<and>
         (set sched = {..<length batch} \<and> (\<forall>i\<in>set batch. \<not> isl (fetchItem rt i)) \<longrightarrow>
            fetchTopStories rt sched count
              = Some (Inr (map (\<lambda>i. projr (fetchItem rt i)) batch)))"
proof -
  have batch: "slice ids 0 count = batch"
    using assms(3) by (simp add: slice_from_0)
  have run: "fetchTopStories rt sched count = Promise_all sched (map (\<lambda>i. fetchItem rt i) batch)"
    using assms(1,2) by (simp add: fetchTopStories_def batch)
  have len: "length batch = (if 0 \<le> count then min (nat count) (length ids)
                         else length ids - nat (- count))"
    using assms(3) by (cases "0 \<le> count") (simp_all add: min.commute)
  have "Promise_all sched (map (\<lambda>i. fetchItem rt i) batch)
          = Some (Inr (map (\<lambda>i. projr (fetchItem rt i)) batch))"
    if "set sched = {..<length batch}" "\<forall>i\<in>set batch. \<not> isl (fetchItem rt i)"
  proof -
    from that have "set sched = {..<length (map (\<lambda>i. fetchItem rt i) batch)}"
      "\<forall>p\<in>set (map (\<lambda>i. fetchItem rt i) batch). \<not> isl p"
      by simp_all
    from Promise_all_fulfilled [OF this] show ?thesis
      by (simp add: comp_def)
  qed
  with run len show ?thesis
    by simp
qed

theorem fetchTopStories_batch_witness:
  "fetchTopStories rt_items [1, 0] (- 1) = Some (Inr [story_item, comment_item]) \<and>
   fetchTopStories rt_items [] 0 = Some (Inr []) \<and>
   fetchTopStories rt_items [0, 1] 2 = Some (Inr [story_item, comment_item]) \<and>
   fetchTopStories rt_items [0, 2, 1] 500 = Some (Inr [story_item, comment_item, pollopt_item])"
proof -
  have top: "fetch_topstories rt_items = Inr (JArr [JNum 1, JNum 2, JNum 3])"
    by (simp add: rt_items_def)
  have b1: "[1, 2 :: rat] = (if 0 \<le> (- 1 :: int) then take (nat (- 1)) [1, 2, 3]
                  else take (length [1, 2, 3 :: rat] - nat (- (- 1))) [1, 2, 3])"
    and b2: "([] :: rat list) = (if 0 \<le> (0 :: int) then take (nat 0) [1, 2, 3]
                  else take (length [1, 2, 3 :: rat] - nat (- 0)) [1, 2, 3])"
    and b3: "[1, 2 :: rat] = (if 0 \<le> (2 :: int) then take (nat 2) [1, 2, 3]
                  else take (length [1, 2, 3 :: rat] - nat (- 2)) [1, 2, 3])"
    and b4: "[1, 2, 3 :: rat] = (if 0 \<le> (500 :: int) then take (nat 500) [1, 2, 3]
                  else take (length [1, 2, 3 :: rat] - nat (- 500)) [1, 2, 3])"
    by simp_all
  note rule = fetchTopStories_batch [THEN conjunct2, THEN conjunct2, THEN mp, OF _ _ _ conjI]
  have ok: "\<forall>i\<in>set [1, 2 :: rat]. \<not> isl (fetchItem rt_items i)"
    "\<forall>i\<in>set ([] :: rat list). \<not> isl (fetchItem rt_items i)"
    "\<forall>i\<in>set [1, 2, 3 :: rat]. \<not> isl (fetchItem rt_items i)"
    by (simp_all add: fetchItem_examples)
  have s: "set [1, 0 :: nat] = {..<length [1, 2 :: rat]}"
    "set ([] :: nat list) = {..<length ([] :: rat list)}"
    "set [0, 1 :: nat] = {..<length [1, 2 :: rat]}"
    "set [0, 2, 1 :: nat] = {..<length [1, 2, 3 :: rat]}"
    by auto
  from rule [OF top decodeToPromise_ids b1 s(1) ok(1)]
       rule [OF top decodeToPromise_ids b2 s(2) ok(2)]
       rule [OF top decodeToPromise_ids b3 s(3) ok(1)]
       rule [OF top decodeToPromise_ids b4 s(4) ok(3)]
  show ?thesis
    by (simp add: fetchItem_examples)
qed

section \<open>The client's error handling\<close>

text \<open>
  C1, as amended. When the pipeline rejects (the fetch of the list, its decoding, or the
  fetch or decoding of an item), \<open>main\<close> prints nothing to standard output and the
  message of the rejection to standard error; the promise of \<open>main\<close> fulfils all the same,
  so the exit code of the process is 0.
\<close>

theorem main_reports_rejection:
  assumes "fetchTopStories rt sched 15 = Some (Inl err)"
  shows "main rt sched = Some \<lparr>stdout = [], stderr = [message err], settled = Inr ()\<rparr> \<and>
         map_option exit_code (main rt sched) = Some 0"
  using assms by (simp add: main_def exit_code_def)

lemma fetchTopStories_rejections:
  "fetchTopStories rt_down [] 15 = Some (Inl (Error ''network down''))"
  "fetchTopStories rt_not_a_list [] 15
     = Some (Inl (Error ''Expecting Array<number> but instead got: [value].''))"
  by (simp_all add: fetchTopStories_def rt_down_def rt_not_a_list_def decodeToPromise_def
      decode_def t_array_def getDefaultContext_def failure_def ID_V_def t_number_def
      reporter_def formatValidationError_def failure_line_def error_path_def List.map_filter_def jsToString_def
      example_stringify_def)

lemma fetchTopStories_missing:
  "fetchTopStories rt_missing [2, 0, 1] 15
     = Some (Inl (Error ''Expecting Item but instead got: null.''))"
proof -
  have "slice [1, 2, 3 :: rat] 0 15 = [1, 2, 3]"
    by (simp add: slice_from_0)
  then show ?thesis
    by (simp add: fetchTopStories_def rt_missing_def decodeToPromise_ids Promise_all_eq
        fetchItem_examples [unfolded rt_missing_def])
qed

theorem main_reports_rejection_witness:
  "main rt_down [] = Some \<lparr>stdout = [], stderr = [''network down''], settled = Inr ()\<rparr> \<and>
   main rt_not_a_list []
     = Some \<lparr>stdout = [], stderr = [''Expecting Array<number> but instead got: [value].''],
             settled = Inr ()\<rparr> \<and>
   main rt_missing [2, 0, 1]
     = Some \<lparr>stdout = [], stderr = [''Expecting Item but instead got: null.''],
             settled = Inr ()\<rparr>"
  using main_reports_rejection [OF fetchTopStories_rejections(1)]
        main_reports_rejection [OF fetchTopStories_rejections(2)]
        main_reports_rejection [OF fetchTopStories_missing]
  by simp

text \<open>
  C1 as stated fails: with the network down the message is printed, and the exit code
  is 0, not a non-zero code.
\<close>

theorem main_exit_code_counterexample:
  "main rt_down [] = Some \<lparr>stdout = [], stderr = [''network down''], settled = Inr ()\<rparr> \<and>
   exit_code \<lparr>stdout = [], stderr = [''network down''], settled = Inr ()\<rparr> = 0"
  by (simp add: main_def fetchTopStories_def rt_down_def exit_code_def)

text \<open>
  A run without errors, for comparison: the three example items are printed in the order
  of the identifier list, whatever the order in which their requests complete.
\<close>

lemma main_prints_items:
  \<open>main rt_items [2, 0, 1] =
     Some \<lparr>stdout = [''"Y Combinator" submitted by pg\<newline>'', ''sama commented: Nice\<newline>'',
                      ''poll option: Yes\<newline>''],
           stderr = [], settled = Inr ()\<rparr>\<close>
proof -
  have "slice [1, 2, 3 :: rat] 0 15 = [1, 2, 3]"
    by (simp add: slice_from_0)
  moreover have "set [2, 0, 1 :: nat]
                   = {..<length [Inr story_item, Inr comment_item, Inr pollopt_item :: Item promise]}"
    by auto
  from Promise_all_fulfilled [OF this]
  have "Promise_all [2, 0, 1] [Inr story_item, Inr comment_item, Inr pollopt_item]
          = Some (Inr [story_item, comment_item, pollopt_item])"
    by simp
  ultimately have "fetchTopStories rt_items [2, 0, 1] 15
               = Some (Inr [story_item, comment_item, pollopt_item])"
    by (simp add: fetchTopStories_def rt_items_def decodeToPromise_ids
        fetchItem_examples [unfolded rt_items_def])
  then show ?thesis
    by (simp add: main_def formatItem_def story_item_def comment_item_def pollopt_item_def)
qed

end
